theory Spec2Isabelle
  imports Complex_Main "HOL-Library.AList" "HOL-Library.Sublist"
begin

section \<open>Data model (osm/graph.ts)\<close>

text \<open>
  JavaScript numbers are modelled as \<^typ>\<open>real\<close> (coordinates, distances, speeds, times)
  and as \<^typ>\<open>int\<close> (node and way identifiers). An optional string field is a
  \<^typ>\<open>string option\<close>, \<open>None\<close> being \<open>undefined\<close>. The edge fields \<open>from\<close> and \<open>to\<close>
  are called \<open>from_id\<close> and \<open>to_id\<close>.
\<close>

datatype RoutingMode = Car | Bicycle | Pedestrian

record GraphNode =
  node_id :: int
  lat :: real
  lon :: real
  barrier :: "string option"

text \<open>
  The type of \<open>geometry\<close> is a parameter: in a \<open>GraphEdge\<close> value it is the sequence of
  coordinate pairs; where objects are held in a store, it is the reference to the
  array.
\<close>

record 'g GraphEdgeOf =
  from_id :: int
  to_id :: int
  wayId :: int
  highway :: string
  maxspeed :: real
  oneway :: bool
  onewayBicycle :: bool
  isReverse :: bool
  distance :: real
  geometry :: 'g
  access :: "string option"
  motorVehicle :: "string option"
  vehicle :: "string option"
  bicycle :: "string option"
  foot :: "string option"

type_synonym GraphEdge = "(real \<times> real) list GraphEdgeOf"

record TurnRestriction =
  fromWayId :: int
  viaNodeId :: int
  toWayId :: int
  rtype :: string

text \<open>
  \<open>nodes\<close> is only ever looked up, so it is a map. \<open>adjacency\<close> is a JavaScript \<open>Map\<close>
  that is also iterated in insertion order: an association list, read with
  \<^const>\<open>map_of\<close> and written with \<^const>\<open>AList.update\<close>.
\<close>

record RoutingGraph =
  nodes :: "int \<rightharpoonup> GraphNode"
  adjacency :: "(int \<times> GraphEdge list) list"
  restrictions :: "TurnRestriction list"

section \<open>Access rule engine (routing/road-types.ts)\<close>

definition CAR_BLOCKING_BARRIERS :: "string set" where
  "CAR_BLOCKING_BARRIERS =
     {''bollard'', ''block'', ''cycle_barrier'', ''bus_trap'',
      ''kissing_gate'', ''stile'', ''turnstile'', ''planter'',
      ''height_restrictor'', ''sally_port'', ''yes''}"

definition BICYCLE_BLOCKING_BARRIERS :: "string set" where
  "BICYCLE_BLOCKING_BARRIERS = {''block'', ''kissing_gate'', ''stile'', ''turnstile''}"

text \<open>\<open>!node.barrier\<close> holds for \<open>undefined\<close> and for the empty string.\<close>

definition isBarrierBlocking :: "GraphNode \<Rightarrow> RoutingMode \<Rightarrow> bool" where
  "isBarrierBlocking node mode =
     (case barrier node of
        None \<Rightarrow> False
      | Some b \<Rightarrow>
          if b = [] then False
          else if mode = Car then b \<in> CAR_BLOCKING_BARRIERS
          else if mode = Bicycle then b \<in> BICYCLE_BLOCKING_BARRIERS
          else False)"

definition modeRow :: "bool \<Rightarrow> bool \<Rightarrow> bool \<Rightarrow> RoutingMode \<Rightarrow> bool" where
  "modeRow c b p mode = (case mode of Car \<Rightarrow> c | Bicycle \<Rightarrow> b | Pedestrian \<Rightarrow> p)"

definition ROAD_ACCESS :: "(string \<times> (RoutingMode \<Rightarrow> bool)) list" where
  "ROAD_ACCESS =
     [(''motorway'',       modeRow True  False False),
      (''motorway_link'',  modeRow True  False False),
      (''trunk'',          modeRow True  False False),
      (''trunk_link'',     modeRow True  False False),
      (''primary'',        modeRow True  True  True),
      (''primary_link'',   modeRow True  True  True),
      (''secondary'',      modeRow True  True  True),
      (''secondary_link'', modeRow True  True  True),
      (''tertiary'',       modeRow True  True  True),
      (''tertiary_link'',  modeRow True  True  True),
      (''residential'',    modeRow True  True  True),
      (''unclassified'',   modeRow True  True  True),
      (''service'',        modeRow True  True  True),
      (''living_street'',  modeRow True  True  True),
      (''cycleway'',       modeRow False True  True),
      (''footway'',        modeRow False False True),
      (''pedestrian'',     modeRow False False True),
      (''path'',           modeRow False False True),
      (''steps'',          modeRow False False True),
      (''busway'',         modeRow False False False)]"

definition DEFAULT_SPEEDS :: "(string \<times> real) list" where
  "DEFAULT_SPEEDS =
     [(''motorway'', 100), (''motorway_link'', 60),
      (''trunk'', 80), (''trunk_link'', 50),
      (''primary'', 50), (''primary_link'', 40),
      (''secondary'', 50), (''secondary_link'', 30),
      (''tertiary'', 30), (''tertiary_link'', 20),
      (''residential'', 30), (''unclassified'', 30),
      (''service'', 15), (''living_street'', 15),
      (''cycleway'', 20),
      (''footway'', 5), (''pedestrian'', 5), (''path'', 5), (''steps'', 3),
      (''busway'', 50)]"

definition DENY_VALUES :: "string set" where
  "DENY_VALUES = {''no'', ''private''}"

definition isEdgeAccessible :: "GraphEdge \<Rightarrow> RoutingMode \<Rightarrow> bool" where
  "isEdgeAccessible edge mode =
     (case map_of ROAD_ACCESS (highway edge) of
        None \<Rightarrow> False
      | Some roadAccess \<Rightarrow>
          if \<not> roadAccess mode then False
          else if mode = Car \<and> motorVehicle edge \<noteq> None
            then the (motorVehicle edge) \<notin> DENY_VALUES
          else if mode = Car \<and> vehicle edge \<noteq> None
            then the (vehicle edge) \<notin> DENY_VALUES
          else if mode = Bicycle \<and> bicycle edge \<noteq> None
            then the (bicycle edge) \<notin> DENY_VALUES
          else if mode = Bicycle \<and> vehicle edge \<noteq> None
            then the (vehicle edge) \<notin> DENY_VALUES
          else if mode = Pedestrian \<and> foot edge \<noteq> None
            then the (foot edge) \<notin> DENY_VALUES
          else if access edge \<noteq> None
            then the (access edge) \<notin> DENY_VALUES
          else True)"

definition canTraverseDirection :: "GraphEdge \<Rightarrow> int \<Rightarrow> RoutingMode \<Rightarrow> bool \<Rightarrow> bool" where
  "canTraverseDirection edge fromNodeId mode ignoreRestrictions =
     (if mode = Pedestrian then True
      else if \<not> oneway edge then True
      else let isAgainstOneway = isReverse edge in
        if mode = Bicycle then
          (if \<not> isAgainstOneway then True else \<not> onewayBicycle edge)
        else if ignoreRestrictions then True
        else \<not> isAgainstOneway)"

definition getTravelSpeed :: "GraphEdge \<Rightarrow> RoutingMode \<Rightarrow> real" where
  "getTravelSpeed edge mode =
     (if mode = Bicycle then 20
      else if mode = Pedestrian then 5
      else if maxspeed edge > 0 then maxspeed edge
      else (case map_of DEFAULT_SPEEDS (highway edge) of Some v \<Rightarrow> v | None \<Rightarrow> 30))"

definition getTravelTime :: "GraphEdge \<Rightarrow> RoutingMode \<Rightarrow> real" where
  "getTravelTime edge mode =
     (let speedKmh = getTravelSpeed edge mode;
          speedMs = speedKmh / 3.6
      in distance edge / speedMs)"

definition getMaxSpeed :: "RoutingMode \<Rightarrow> real" where
  "getMaxSpeed mode =
     (if mode = Bicycle then 20
      else if mode = Pedestrian then 5
      else 100)"

text \<open>The motorway edge of a way tagged \<open>maxspeed=120\<close>, as the parser builds it.\<close>

definition motorway120 :: GraphEdge where
  "motorway120 =
     \<lparr> from_id = 1, to_id = 2, wayId = 100, highway = ''motorway'', maxspeed = 120,
       oneway = True, onewayBicycle = True, isReverse = False, distance = 1000,
       geometry = [(0, 0), (0, 0)], access = None, motorVehicle = None, vehicle = None,
       bicycle = None, foot = None \<rparr>"

section \<open>Travel speed and the heuristic's speed bound\<close>

lemma default_speed_le_100:
  "map_of DEFAULT_SPEEDS h = Some v \<Longrightarrow> 0 < v \<and> v \<le> 100"
  by (auto simp: DEFAULT_SPEEDS_def split: if_splits)

lemma getTravelSpeed_pos: "0 < getTravelSpeed edge mode"
  by (auto simp: getTravelSpeed_def split: option.splits dest: default_speed_le_100)

lemma getTravelSpeed_bound_untagged:
  "mode \<noteq> Car \<or> maxspeed edge \<le> 100 \<Longrightarrow> getTravelSpeed edge mode \<le> getMaxSpeed mode"
  by (cases mode) (auto simp: getTravelSpeed_def getMaxSpeed_def split: option.splits
      dest: default_speed_le_100)

text \<open>
  C1. The claim is that \<open>getTravelSpeed(edge, mode) <= getMaxSpeed(mode)\<close> for every
  edge and mode. For the car mode the code returns the edge's own \<open>maxspeed\<close> whenever
  it is positive, so an edge tagged with 120 km/h is traversed at 120 km/h while the
  bound used by the heuristic stays 100 km/h.
\<close>

theorem C1_travel_speed_exceeds_max_speed:
  "getTravelSpeed motorway120 Car = 120 \<and> getMaxSpeed Car = 100 \<and>
   \<not> getTravelSpeed motorway120 Car \<le> getMaxSpeed Car"
  by (simp add: getTravelSpeed_def getMaxSpeed_def motorway120_def)

section \<open>Direction of travel\<close>

text \<open>
  C2. \<open>canTraverseDirection\<close> accepts every edge for pedestrians and every edge that is
  not oneway for every mode; on a oneway edge it rejects a bicycle exactly when the
  edge is reversed and \<open>onewayBicycle\<close> is set, rejects a car without
  \<open>ignoreRestrictions\<close> exactly when the edge is reversed, and accepts every car with
  \<open>ignoreRestrictions\<close>.
\<close>

theorem C2_canTraverseDirection:
  "canTraverseDirection edge n Pedestrian ign
   \<and> (\<not> oneway edge \<longrightarrow> canTraverseDirection edge n mode ign)
   \<and> (oneway edge \<longrightarrow>
        (\<not> canTraverseDirection edge n Bicycle ign) = (isReverse edge \<and> onewayBicycle edge))
   \<and> (oneway edge \<longrightarrow> (\<not> canTraverseDirection edge n Car False) = isReverse edge)
   \<and> (oneway edge \<longrightarrow> canTraverseDirection edge n Car True)"
  by (simp add: canTraverseDirection_def)

theorem C2_canTraverseDirection_witness:
  "canTraverseDirection motorway120 1 Pedestrian False
   \<and> \<not> oneway (motorway120\<lparr>oneway := False\<rparr>)
   \<and> canTraverseDirection (motorway120\<lparr>oneway := False\<rparr>) 1 Car False
   \<and> oneway (motorway120\<lparr>isReverse := True\<rparr>)
   \<and> \<not> canTraverseDirection (motorway120\<lparr>isReverse := True\<rparr>) 2 Bicycle False
   \<and> \<not> canTraverseDirection (motorway120\<lparr>isReverse := True\<rparr>) 2 Car False
   \<and> canTraverseDirection (motorway120\<lparr>isReverse := True\<rparr>) 2 Car True"
  using C2_canTraverseDirection [of motorway120 1 False Car]
    C2_canTraverseDirection [of "motorway120\<lparr>oneway := False\<rparr>" 1 False Car]
    C2_canTraverseDirection [of "motorway120\<lparr>isReverse := True\<rparr>" 2 False Car]
  by (simp add: motorway120_def)

section \<open>Geodesy (osm/parser.ts)\<close>

definition toRad :: "real \<Rightarrow> real" where
  "toRad d = (d * pi) / 180"

text \<open>\<open>Math.atan2\<close> on the reals.\<close>

definition atan2 :: "real \<Rightarrow> real \<Rightarrow> real" where
  "atan2 y x =
     (if x > 0 then arctan (y / x)
      else if x < 0 then (if y \<ge> 0 then arctan (y / x) + pi else arctan (y / x) - pi)
      else if y > 0 then pi / 2
      else if y < 0 then - pi / 2
      else 0)"

definition haversine :: "real \<Rightarrow> real \<Rightarrow> real \<Rightarrow> real \<Rightarrow> real" where
  "haversine lat1 lon1 lat2 lon2 =
     (let R = 6371000;
          dLat = toRad (lat2 - lat1);
          dLon = toRad (lon2 - lon1);
          a = (sin (dLat / 2))\<^sup>2 + cos (toRad lat1) * cos (toRad lat2) * (sin (dLon / 2))\<^sup>2
      in R * 2 * atan2 (sqrt a) (sqrt (1 - a)))"

section \<open>Search engine (routing/a-star.ts)\<close>

subsection \<open>The binary min-heap\<close>

text \<open>
  \<open>MinHeap<T>.items\<close> is a list of (key, value) pairs. \<open>bubbleUp\<close> and \<open>sinkDown\<close> are
  only called with an index below the length, and only read below the length.
\<close>

definition swap :: "'a list \<Rightarrow> nat \<Rightarrow> nat \<Rightarrow> 'a list" where
  "swap items i j = items[i := items ! j, j := items ! i]"

function bubbleUp :: "(real \<times> 'a) list \<Rightarrow> nat \<Rightarrow> (real \<times> 'a) list" where
  "bubbleUp items i =
     (if i > 0 then
        (let parent = (i - 1) div 2 in
         if fst (items ! i) \<ge> fst (items ! parent) then items
         else bubbleUp (swap items i parent) parent)
      else items)"
  by pat_completeness auto
termination
  by (relation "measure (\<lambda>(items, i). i)") auto

declare bubbleUp.simps [simp del]

text \<open>The body of the \<open>sinkDown\<close> loop up to the choice of \<open>smallest\<close>.\<close>

definition pickSmallest :: "(real \<times> 'a) list \<Rightarrow> nat \<Rightarrow> nat" where
  "pickSmallest items i =
     (let n = length items;
          left = 2 * i + 1;
          right = 2 * i + 2;
          smallest = i;
          smallest = (if left < n \<and> fst (items ! left) < fst (items ! smallest)
                      then left else smallest);
          smallest = (if right < n \<and> fst (items ! right) < fst (items ! smallest)
                      then right else smallest)
      in smallest)"

lemma pickSmallest_range:
  "pickSmallest items i \<noteq> i \<Longrightarrow> i < pickSmallest items i \<and> pickSmallest items i < length items"
  by (auto simp: pickSmallest_def Let_def split: if_splits)

lemma length_swap [simp]: "length (swap items i j) = length items"
  by (simp add: swap_def)

function sinkDown :: "(real \<times> 'a) list \<Rightarrow> nat \<Rightarrow> (real \<times> 'a) list" where
  "sinkDown items i =
     (let smallest = pickSmallest items i in
      if smallest = i then items
      else sinkDown (swap items i smallest) smallest)"
  by pat_completeness auto
termination
proof (relation "measure (\<lambda>(items, i). length items - i)")
  show "wf (measure (\<lambda>(items :: (real \<times> 'a) list, i). length items - i))"
    by simp
next
  fix items :: "(real \<times> 'a) list" and i x
  assume "x = pickSmallest items i" and "x \<noteq> i"
  then have "i < x \<and> x < length items"
    using pickSmallest_range [of items i] by simp
  then show "((swap items i x, x), items, i) \<in> measure (\<lambda>(items, i). length items - i)"
    by auto
qed

declare sinkDown.simps [simp del]

definition push :: "(real \<times> 'a) list \<Rightarrow> real \<Rightarrow> 'a \<Rightarrow> (real \<times> 'a) list" where
  "push items key v = bubbleUp (items @ [(key, v)]) (length items)"

text \<open>\<open>pop\<close> returns the top value together with the remaining items; \<open>None\<close> is
  \<open>undefined\<close>, returned for the empty heap.\<close>

definition pop :: "(real \<times> 'a) list \<Rightarrow> ('a \<times> (real \<times> 'a) list) option" where
  "pop items =
     (if length items = 0 then None
      else
        (let top = snd (items ! 0);
             lst = last items;
             items' = butlast items
         in if length items' > 0 then Some (top, sinkDown (items'[0 := lst]) 0)
            else Some (top, items')))"

lemma length_bubbleUp [simp]: "length (bubbleUp items i) = length items"
proof (induction items i rule: bubbleUp.induct)
  case (1 items i)
  show ?case
    by (subst bubbleUp.simps) (simp add: 1 Let_def)
qed

lemma length_sinkDown [simp]: "length (sinkDown items i) = length items"
proof (induction items i rule: sinkDown.induct)
  case (1 items i)
  show ?case
    by (subst sinkDown.simps) (simp add: 1 Let_def)
qed

lemma length_push [simp]: "length (push items key v) = Suc (length items)"
  by (simp add: push_def)

lemma pop_length: "pop items = Some (v, rest) \<Longrightarrow> Suc (length rest) = length items"
  by (cases items rule: rev_cases) (auto simp: pop_def Let_def split: if_splits)

lemma pop_None: "pop items = None \<longleftrightarrow> items = []"
  by (simp add: pop_def Let_def)

subsection \<open>Steps, options and search state\<close>

text \<open>
  \<open>totalTime\<close> of a \<open>done\<close> step is \<open>gScore.get(endNodeId)!\<close>: the map's entry, which
  is \<open>None\<close> when the map has none.
\<close>

datatype AStarStep =
    Explore GraphEdge int int
  | Done "GraphEdge list" "int list" "real option"
  | NoRoute

fun isExplore :: "AStarStep \<Rightarrow> bool" where
  "isExplore (Explore e f t) = True"
| "isExplore s = False"

fun isTerminal :: "AStarStep \<Rightarrow> bool" where
  "isTerminal (Explore e f t) = False"
| "isTerminal s = True"

record CameFromEntry =
  prevNodeId :: int
  cf_edge :: GraphEdge
  prevWayId :: int

record AStarOptions =
  ignoreRestrictions :: "bool option"

text \<open>\<open>!!options.ignoreRestrictions\<close>\<close>

definition ignoring :: "AStarOptions \<Rightarrow> bool" where
  "ignoring options = (ignoreRestrictions options = Some True)"

record AStarState =
  gScore :: "int \<rightharpoonup> real"
  cameFrom :: "int \<rightharpoonup> CameFromEntry"
  openSet :: "(real \<times> int) list"
  closedSet :: "int set"

text \<open>Reading a property of \<open>undefined\<close> throws a \<open>TypeError\<close>.\<close>

datatype error = TypeError

subsection \<open>Turn restrictions and barriers\<close>

fun isRestrictedIn :: "TurnRestriction list \<Rightarrow> int \<Rightarrow> int \<Rightarrow> int \<Rightarrow> bool" where
  "isRestrictedIn [] fromWay viaNode toWay = False"
| "isRestrictedIn (r # rs) fromWay viaNode toWay =
     (if fromWayId r = fromWay \<and> viaNodeId r = viaNode \<and> toWayId r = toWay
         \<and> prefix ''no_'' (rtype r)
      then True
      else isRestrictedIn rs fromWay viaNode toWay)"

definition isRestricted :: "RoutingGraph \<Rightarrow> int \<Rightarrow> int \<Rightarrow> int \<Rightarrow> bool" where
  "isRestricted graph fromWay viaNode toWay =
     isRestrictedIn (restrictions graph) fromWay viaNode toWay"

text \<open>The turn restriction check of the neighbour loop (cars only).\<close>

definition turnRestricted ::
  "RoutingGraph \<Rightarrow> RoutingMode \<Rightarrow> bool \<Rightarrow> int \<Rightarrow> int \<Rightarrow> GraphEdge \<Rightarrow> bool" where
  "turnRestricted graph mode ign currentWayId currentId e =
     (mode = Car \<and> currentWayId \<noteq> 0 \<and> \<not> ign
      \<and> isRestricted graph currentWayId currentId (wayId e))"

text \<open>The barrier check of the neighbour loop, on the target node.\<close>

definition barrierBlocked :: "RoutingGraph \<Rightarrow> RoutingMode \<Rightarrow> bool \<Rightarrow> int \<Rightarrow> bool" where
  "barrierBlocked graph mode ign toNodeId =
     (\<not> ign \<and>
      (case nodes graph toNodeId of
         None \<Rightarrow> False
       | Some toNode \<Rightarrow> isBarrierBlocking toNode mode))"

subsection \<open>The search\<close>

text \<open>\<open>heuristic\<close> reads \<open>graph.nodes.get(nodeId)!.lat\<close>: \<open>None\<close> is the \<open>TypeError\<close>
  thrown for a node id that has no entry.\<close>

definition heuristic :: "RoutingGraph \<Rightarrow> GraphNode \<Rightarrow> RoutingMode \<Rightarrow> int \<Rightarrow> real option" where
  "heuristic graph endNode mode nodeId =
     (let maxSpeedMs = getMaxSpeed mode / 3.6 in
      case nodes graph nodeId of
        None \<Rightarrow> None
      | Some node \<Rightarrow>
          Some (haversine (lat node) (lon node) (lat endNode) (lon endNode) / maxSpeedMs))"

text \<open>
  The \<open>for (const edge of neighbors)\<close> loop. It returns the steps it yields, and the
  state after the loop or the error that ended it. \<open>currentG\<close> is
  \<open>gScore.get(currentId) ?? Infinity\<close> with \<open>None\<close> for \<open>Infinity\<close>, as is the old score
  of the target in the comparison.
\<close>

fun expandEdges ::
  "RoutingGraph \<Rightarrow> RoutingMode \<Rightarrow> bool \<Rightarrow> GraphNode \<Rightarrow> int \<Rightarrow> real option \<Rightarrow> int
   \<Rightarrow> GraphEdge list \<Rightarrow> AStarState \<Rightarrow> AStarStep list \<times> (error + AStarState)" where
  "expandEdges graph mode ign endNode currentId currentG currentWayId [] st = ([], Inr st)"
| "expandEdges graph mode ign endNode currentId currentG currentWayId (e # rest) st =
     (if \<not> isEdgeAccessible e mode
      then expandEdges graph mode ign endNode currentId currentG currentWayId rest st
      else
        (let toNodeId = (if from_id e = currentId then to_id e else from_id e) in
         if \<not> canTraverseDirection e currentId mode ign
         then expandEdges graph mode ign endNode currentId currentG currentWayId rest st
         else if turnRestricted graph mode ign currentWayId currentId e
         then expandEdges graph mode ign endNode currentId currentG currentWayId rest st
         else if barrierBlocked graph mode ign toNodeId
         then expandEdges graph mode ign endNode currentId currentG currentWayId rest st
         else
           (let step = Explore e currentId toNodeId;
                better =
                  (case currentG of
                     None \<Rightarrow> None
                   | Some g \<Rightarrow>
                       (let tentativeG = g + getTravelTime e mode in
                        case gScore st toNodeId of
                          None \<Rightarrow> Some tentativeG
                        | Some old \<Rightarrow> if tentativeG < old then Some tentativeG else None))
            in case better of
                 None \<Rightarrow>
                   (case expandEdges graph mode ign endNode currentId currentG currentWayId rest st
                    of (steps, r) \<Rightarrow> (step # steps, r))
               | Some tentativeG \<Rightarrow>
                   (case heuristic graph endNode mode toNodeId of
                      None \<Rightarrow> ([step], Inl TypeError)
                    | Some h \<Rightarrow>
                        (case expandEdges graph mode ign endNode currentId currentG currentWayId
                                rest
                                (st\<lparr> gScore := (gScore st)(toNodeId \<mapsto> tentativeG),
                                     cameFrom := (cameFrom st)(toNodeId \<mapsto>
                                       \<lparr> prevNodeId = currentId, cf_edge = e, prevWayId = wayId e \<rparr>),
                                     openSet := push (openSet st) (tentativeG + h) toNodeId \<rparr>)
                         of (steps, r) \<Rightarrow> (step # steps, r))))))"

text \<open>
  The path reconstruction loop \<open>while (cameFrom.has(cur))\<close>. Nothing in the loop
  bounds it, so it is a partial function: \<open>None\<close> is a loop that never ends.
\<close>

partial_function (option) walkBack ::
  "(int \<rightharpoonup> CameFromEntry) \<Rightarrow> int \<Rightarrow> GraphEdge list \<Rightarrow> int list
   \<Rightarrow> (GraphEdge list \<times> int list) option" where
  "walkBack cf cur path pathNodeIds =
     (case cf cur of
        None \<Rightarrow> Some (path, pathNodeIds)
      | Some entry \<Rightarrow>
          walkBack cf (prevNodeId entry) (path @ [cf_edge entry]) (pathNodeIds @ [cur]))"

text \<open>
  The result of running the generator to its end: \<open>None\<close> when it never ends,
  otherwise the steps it yields and the error it throws, if any.
\<close>

type_synonym outcome = "(AStarStep list \<times> error option) option"

definition yieldThen :: "AStarStep list \<Rightarrow> outcome \<Rightarrow> outcome" where
  "yieldThen steps r = map_option (\<lambda>(more, err). (steps @ more, err)) r"

lemma expandEdges_closed:
  "expandEdges graph mode ign endNode currentId currentG currentWayId es st = (steps, Inr st')
   \<Longrightarrow> closedSet st' = closedSet st"
  by (induction es arbitrary: st steps)
     (auto simp: Let_def split: if_splits option.splits prod.splits)

text \<open>
  The main loop \<open>while (openSet.size > 0)\<close>. It ends for every state: a pop either
  closes a key of \<open>adjacency\<close> that was open, or shortens the heap.
\<close>

function search ::
  "RoutingGraph \<Rightarrow> int \<Rightarrow> int \<Rightarrow> GraphNode \<Rightarrow> RoutingMode \<Rightarrow> bool \<Rightarrow> AStarState \<Rightarrow> outcome" where
  "search graph startNodeId endNodeId endNode mode ign st =
     (case pop (openSet st) of
        None \<Rightarrow> Some ([NoRoute], None)
      | Some (currentId, rest) \<Rightarrow>
          if currentId \<in> closedSet st
          then search graph startNodeId endNodeId endNode mode ign (st\<lparr>openSet := rest\<rparr>)
          else if currentId = endNodeId then
            (case walkBack (cameFrom st) endNodeId [] [] of
               None \<Rightarrow> None
             | Some (path, pathNodeIds) \<Rightarrow>
                 Some ([Done (rev path) (rev (pathNodeIds @ [startNodeId])) (gScore st endNodeId)],
                       None))
          else
            (let currentG = gScore st currentId;
                 currentWayId =
                   (case cameFrom st currentId of
                      Some currentEntry \<Rightarrow> wayId (cf_edge currentEntry)
                    | None \<Rightarrow> 0)
             in case map_of (adjacency graph) currentId of
                  None \<Rightarrow>
                    search graph startNodeId endNodeId endNode mode ign
                      (st\<lparr>openSet := rest, closedSet := insert currentId (closedSet st)\<rparr>)
                | Some neighbors \<Rightarrow>
                    (case expandEdges graph mode ign endNode currentId currentG currentWayId
                            neighbors
                            (st\<lparr>openSet := rest, closedSet := insert currentId (closedSet st)\<rparr>)
                     of (steps, Inl err) \<Rightarrow> Some (steps, Some err)
                      | (steps, Inr st') \<Rightarrow>
                          yieldThen steps
                            (search graph startNodeId endNodeId endNode mode ign st'))))"
  by pat_completeness auto
termination
proof (relation "inv_image (less_than <*lex*> less_than)
      (\<lambda>(graph, startNodeId, endNodeId, endNode, mode, ign, st).
         (card (fst ` set (adjacency graph) - closedSet st), length (openSet st)))",
    goal_cases)
  case 1
  show ?case by (intro wf_inv_image wf_lex_prod wf_less_than)
next
  case (2 graph startNodeId endNodeId endNode mode ign st x2 currentId rest)
  then show ?case by (auto dest: pop_length)
next
  case (3 graph startNodeId endNodeId endNode mode ign st x2 currentId rest)
  then have "Suc (length rest) = length (openSet st)"
    by (auto dest: pop_length)
  moreover have "currentId \<notin> fst ` set (adjacency graph)"
    using 3 by (simp add: map_of_eq_None_iff)
  then have "fst ` set (adjacency graph) - insert currentId (closedSet st)
      = fst ` set (adjacency graph) - closedSet st"
    by auto
  ultimately show ?case by simp
next
  case (4 graph startNodeId endNodeId endNode mode ign st x2 currentId rest currentG
      currentWayId neighbors steps r st')
  then have "closedSet st' = insert currentId (closedSet st)"
    using expandEdges_closed [of graph mode ign endNode currentId currentG currentWayId
        neighbors "st\<lparr>openSet := rest, closedSet := insert currentId (closedSet st)\<rparr>" steps st']
    by simp
  moreover have "currentId \<in> fst ` set (adjacency graph)"
    using 4 by (metis map_of_eq_None_iff option.distinct(1))
  then have "fst ` set (adjacency graph) - insert currentId (closedSet st)
      \<subset> fst ` set (adjacency graph) - closedSet st"
    using 4 by auto
  then have "card (fst ` set (adjacency graph) - insert currentId (closedSet st))
      < card (fst ` set (adjacency graph) - closedSet st)"
    by (intro psubset_card_mono) auto
  ultimately show ?case by simp
qed

declare search.simps [simp del]

definition aStarRoute ::
  "RoutingGraph \<Rightarrow> int \<Rightarrow> int \<Rightarrow> RoutingMode \<Rightarrow> AStarOptions \<Rightarrow> outcome" where
  "aStarRoute graph startNodeId endNodeId mode options =
     (case nodes graph endNodeId of
        None \<Rightarrow> Some ([NoRoute], None)
      | Some endNode \<Rightarrow>
          (case nodes graph startNodeId of
             None \<Rightarrow> Some ([NoRoute], None)
           | Some startNode \<Rightarrow>
               if startNodeId = endNodeId
               then Some ([Done [] [startNodeId] (Some 0)], None)
               else
                 (case heuristic graph endNode mode startNodeId of
                    None \<Rightarrow> Some ([], Some TypeError)
                  | Some h \<Rightarrow>
                      search graph startNodeId endNodeId endNode mode (ignoring options)
                        \<lparr> gScore = [startNodeId \<mapsto> 0],
                          cameFrom = Map.empty,
                          openSet = push [] h startNodeId,
                          closedSet = {} \<rparr>)))"

subsection \<open>Unfolding the main loop\<close>

lemma search_empty:
  "pop (openSet st) = None \<Longrightarrow>
   search graph s e endNode mode ign st = Some ([NoRoute], None)"
  by (subst search.simps) simp

lemma search_closed:
  "pop (openSet st) = Some (c, rest) \<Longrightarrow> c \<in> closedSet st \<Longrightarrow>
   search graph s e endNode mode ign st = search graph s e endNode mode ign (st\<lparr>openSet := rest\<rparr>)"
  by (subst search.simps) simp

lemma search_goal:
  "pop (openSet st) = Some (c, rest) \<Longrightarrow> c \<notin> closedSet st \<Longrightarrow> c = e \<Longrightarrow>
   search graph s e endNode mode ign st =
     (case walkBack (cameFrom st) e [] [] of
        None \<Rightarrow> None
      | Some (path, pathNodeIds) \<Rightarrow>
          Some ([Done (rev path) (rev (pathNodeIds @ [s])) (gScore st e)], None))"
  by (subst search.simps) simp

definition currentWayIdOf :: "AStarState \<Rightarrow> int \<Rightarrow> int" where
  "currentWayIdOf st c =
     (case cameFrom st c of Some currentEntry \<Rightarrow> wayId (cf_edge currentEntry) | None \<Rightarrow> 0)"

definition closeNode :: "AStarState \<Rightarrow> int \<Rightarrow> (real \<times> int) list \<Rightarrow> AStarState" where
  "closeNode st c rest = st\<lparr>openSet := rest, closedSet := insert c (closedSet st)\<rparr>"

lemma search_no_neighbors:
  "pop (openSet st) = Some (c, rest) \<Longrightarrow> c \<notin> closedSet st \<Longrightarrow> c \<noteq> e \<Longrightarrow>
   map_of (adjacency graph) c = None \<Longrightarrow>
   search graph s e endNode mode ign st = search graph s e endNode mode ign (closeNode st c rest)"
  by (subst search.simps) (simp add: closeNode_def)

lemma search_error:
  "pop (openSet st) = Some (c, rest) \<Longrightarrow> c \<notin> closedSet st \<Longrightarrow> c \<noteq> e \<Longrightarrow>
   map_of (adjacency graph) c = Some neighbors \<Longrightarrow>
   expandEdges graph mode ign endNode c (gScore st c) (currentWayIdOf st c) neighbors
     (closeNode st c rest) = (steps, Inl err) \<Longrightarrow>
   search graph s e endNode mode ign st = Some (steps, Some err)"
  by (subst search.simps) (simp add: closeNode_def currentWayIdOf_def)

lemma search_expand:
  "pop (openSet st) = Some (c, rest) \<Longrightarrow> c \<notin> closedSet st \<Longrightarrow> c \<noteq> e \<Longrightarrow>
   map_of (adjacency graph) c = Some neighbors \<Longrightarrow>
   expandEdges graph mode ign endNode c (gScore st c) (currentWayIdOf st c) neighbors
     (closeNode st c rest) = (steps, Inr st') \<Longrightarrow>
   search graph s e endNode mode ign st = yieldThen steps (search graph s e endNode mode ign st')"
  by (subst search.simps) (simp add: closeNode_def currentWayIdOf_def)

lemma search_cases [consumes 0, case_names empty closed goal no_neighbors error expand]:
  assumes "pop (openSet st) = None \<Longrightarrow> R"
    and "\<And>c rest. pop (openSet st) = Some (c, rest) \<Longrightarrow> c \<in> closedSet st \<Longrightarrow> R"
    and "\<And>c rest. pop (openSet st) = Some (c, rest) \<Longrightarrow> c \<notin> closedSet st \<Longrightarrow> c = e \<Longrightarrow> R"
    and "\<And>c rest. pop (openSet st) = Some (c, rest) \<Longrightarrow> c \<notin> closedSet st \<Longrightarrow> c \<noteq> e \<Longrightarrow>
           map_of (adjacency graph) c = None \<Longrightarrow> R"
    and "\<And>c rest neighbors steps err.
           pop (openSet st) = Some (c, rest) \<Longrightarrow> c \<notin> closedSet st \<Longrightarrow> c \<noteq> e \<Longrightarrow>
           map_of (adjacency graph) c = Some neighbors \<Longrightarrow>
           expandEdges graph mode ign endNode c (gScore st c) (currentWayIdOf st c) neighbors
             (closeNode st c rest) = (steps, Inl err) \<Longrightarrow> R"
    and "\<And>c rest neighbors steps st'.
           pop (openSet st) = Some (c, rest) \<Longrightarrow> c \<notin> closedSet st \<Longrightarrow> c \<noteq> e \<Longrightarrow>
           map_of (adjacency graph) c = Some neighbors \<Longrightarrow>
           expandEdges graph mode ign endNode c (gScore st c) (currentWayIdOf st c) neighbors
             (closeNode st c rest) = (steps, Inr st') \<Longrightarrow> R"
  shows R
proof (cases "pop (openSet st)")
  case None
  then show ?thesis by (rule assms(1))
next
  case (Some p)
  obtain c rest where p: "p = (c, rest)" by (cases p)
  show ?thesis
  proof (cases "c \<in> closedSet st")
    case True
    then show ?thesis using Some p assms(2) by simp
  next
    case nc: False
    show ?thesis
    proof (cases "c = e")
      case True
      then show ?thesis using Some p nc assms(3) by simp
    next
      case ne: False
      show ?thesis
      proof (cases "map_of (adjacency graph) c")
        case None
        then show ?thesis using Some p nc ne assms(4) by simp
      next
        case nb: (Some neighbors)
        obtain steps r where ex:
          "expandEdges graph mode ign endNode c (gScore st c) (currentWayIdOf st c) neighbors
             (closeNode st c rest) = (steps, r)"
          by (cases "expandEdges graph mode ign endNode c (gScore st c) (currentWayIdOf st c)
             neighbors (closeNode st c rest)")
        show ?thesis
        proof (cases r)
          case (Inl err)
          then show ?thesis using Some p nc ne nb ex assms(5) by simp
        next
          case (Inr st')
          then show ?thesis using Some p nc ne nb ex assms(6) by simp
        qed
      qed
    qed
  qed
qed

text \<open>Induction over the iterations of the main loop.\<close>

lemma search_induct [consumes 0, case_names iter]:
  assumes step: "\<And>st.
     (\<And>c rest. pop (openSet st) = Some (c, rest) \<Longrightarrow> c \<in> closedSet st \<Longrightarrow>
        P (st\<lparr>openSet := rest\<rparr>)) \<Longrightarrow>
     (\<And>c rest. pop (openSet st) = Some (c, rest) \<Longrightarrow> c \<notin> closedSet st \<Longrightarrow> c \<noteq> e \<Longrightarrow>
        map_of (adjacency graph) c = None \<Longrightarrow> P (closeNode st c rest)) \<Longrightarrow>
     (\<And>c rest neighbors steps st'.
        pop (openSet st) = Some (c, rest) \<Longrightarrow> c \<notin> closedSet st \<Longrightarrow> c \<noteq> e \<Longrightarrow>
        map_of (adjacency graph) c = Some neighbors \<Longrightarrow>
        expandEdges graph mode ign endNode c (gScore st c) (currentWayIdOf st c) neighbors
          (closeNode st c rest) = (steps, Inr st') \<Longrightarrow> P st') \<Longrightarrow>
     P st"
  shows "P st"
proof -
  have "g = graph \<longrightarrow> e' = e \<longrightarrow> en = endNode \<longrightarrow> m = mode \<longrightarrow> i = ign \<longrightarrow> P st"
    for g and s :: int and e' en m i
  proof (induction g s e' en m i st rule: search.induct)
    case (1 g s e' en m i st)
    show ?case
    proof (intro impI)
      assume eqs: "g = graph" "e' = e" "en = endNode" "m = mode" "i = ign"
      show "P st"
      proof (rule step)
        fix c rest
        assume "pop (openSet st) = Some (c, rest)" "c \<in> closedSet st"
        then show "P (st\<lparr>openSet := rest\<rparr>)"
          using 1(1) eqs by simp
      next
        fix c rest
        assume "pop (openSet st) = Some (c, rest)" "c \<notin> closedSet st" "c \<noteq> e"
          "map_of (adjacency graph) c = None"
        then show "P (closeNode st c rest)"
          using 1(2) eqs by (simp add: closeNode_def)
      next
        fix c rest neighbors steps st'
        assume "pop (openSet st) = Some (c, rest)" "c \<notin> closedSet st" "c \<noteq> e"
          "map_of (adjacency graph) c = Some neighbors"
          "expandEdges graph mode ign endNode c (gScore st c) (currentWayIdOf st c) neighbors
              (closeNode st c rest) = (steps, Inr st')"
        then show "P st'"
          using 1(3) [of "(c, rest)" c rest "gScore st c" "currentWayIdOf st c" neighbors
              steps "Inr st'" st'] eqs
          by (simp add: closeNode_def currentWayIdOf_def)
      qed
    qed
  qed
  then show ?thesis by blast
qed

subsection \<open>Shape of the step sequence\<close>

lemma expandEdges_steps_explore:
  "expandEdges graph mode ign endNode c g w es st = (steps, r) \<Longrightarrow> list_all isExplore steps"
  by (induction es arbitrary: st steps r)
     (auto simp: Let_def split: if_splits option.splits prod.splits)

text \<open>A finished run: explore steps, then one terminal step.\<close>

definition oneTerminalLast :: "AStarStep list \<Rightarrow> bool" where
  "oneTerminalLast steps =
     (steps \<noteq> [] \<and> isTerminal (last steps) \<and> list_all isExplore (butlast steps)
      \<and> length (filter isTerminal steps) = 1)"

lemma isTerminal_not_explore: "isTerminal s = (\<not> isExplore s)"
  by (cases s) auto

lemma filter_terminal_explores: "list_all isExplore xs \<Longrightarrow> filter isTerminal xs = []"
  by (induction xs) (auto simp: isTerminal_not_explore)

lemma oneTerminalLast_snoc:
  "list_all isExplore ex \<Longrightarrow> isTerminal t \<Longrightarrow> oneTerminalLast (ex @ [t])"
  by (simp add: oneTerminalLast_def filter_terminal_explores)

lemma oneTerminalLast_append:
  "list_all isExplore ex \<Longrightarrow> oneTerminalLast steps \<Longrightarrow> oneTerminalLast (ex @ steps)"
  by (auto simp: oneTerminalLast_def filter_terminal_explores butlast_append)

lemma search_shape:
  "search graph s e endNode mode ign st = Some (steps, err) \<Longrightarrow>
   (case err of None \<Rightarrow> oneTerminalLast steps | Some x \<Rightarrow> list_all isExplore steps)"
proof (induction st arbitrary: steps err rule: search_induct [where e = e and graph = graph and mode = mode and ign = ign and endNode = endNode])
  case (iter st)
  show ?case
  proof (cases rule: search_cases [where st = st and e = e and graph = graph and mode = mode and ign = ign and endNode = endNode])
    case empty
    then show ?thesis
      using iter.prems by (auto simp: search_empty oneTerminalLast_def)
  next
    case (closed c rest)
    then show ?thesis
      using iter.prems iter.IH(1) by (simp add: search_closed)
  next
    case (goal c rest)
    then show ?thesis
      using iter.prems
      by (auto simp: search_goal oneTerminalLast_def split: option.splits)
  next
    case (no_neighbors c rest)
    then show ?thesis
      using iter.prems iter.IH(2) by (simp add: search_no_neighbors)
  next
    case (error c rest neighbors steps' err')
    then show ?thesis
      using iter.prems expandEdges_steps_explore [OF error(5)]
      by (auto simp: search_error)
  next
    case (expand c rest neighbors steps' st')
    from expand iter.prems
    have eq: "yieldThen steps' (search graph s e endNode mode ign st') = Some (steps, err)"
      by (simp add: search_expand)
    then obtain more where more: "search graph s e endNode mode ign st' = Some (more, err)"
      and steps: "steps = steps' @ more"
      by (auto simp: yieldThen_def)
    have ex: "list_all isExplore steps'"
      using expandEdges_steps_explore [OF expand(5)] .
    have "case err of None \<Rightarrow> oneTerminalLast more | Some x \<Rightarrow> list_all isExplore more"
      using iter.IH(3) [OF expand more] .
    then show ?thesis
      using ex steps by (auto simp: oneTerminalLast_append split: option.splits)
  qed
qed

subsection \<open>Well-formed graphs\<close>

definition graphEdges :: "RoutingGraph \<Rightarrow> GraphEdge set" where
  "graphEdges graph = (\<Union>(k, es) \<in> set (adjacency graph). set es)"

text \<open>Every edge endpoint has an entry in \<open>nodes\<close>.\<close>

definition endpointsKnown :: "RoutingGraph \<Rightarrow> bool" where
  "endpointsKnown graph =
     (\<forall>e \<in> graphEdges graph. from_id e \<in> dom (nodes graph) \<and> to_id e \<in> dom (nodes graph))"

definition distancesNonNegative :: "RoutingGraph \<Rightarrow> bool" where
  "distancesNonNegative graph = (\<forall>e \<in> graphEdges graph. 0 \<le> distance e)"

lemma neighbors_graphEdges:
  "map_of (adjacency graph) c = Some neighbors \<Longrightarrow> set neighbors \<subseteq> graphEdges graph"
  by (auto simp: graphEdges_def dest: map_of_SomeD)

lemma getTravelTime_nonneg: "0 \<le> distance e \<Longrightarrow> 0 \<le> getTravelTime e mode"
  using getTravelSpeed_pos [of e mode] by (simp add: getTravelTime_def)

subsection \<open>The predecessor links never form a cycle\<close>

inductive chainEnds :: "(int \<rightharpoonup> CameFromEntry) \<Rightarrow> int \<Rightarrow> bool" for cf where
  root: "cf v = None \<Longrightarrow> chainEnds cf v"
| link: "cf v = Some entry \<Longrightarrow> chainEnds cf (prevNodeId entry) \<Longrightarrow> chainEnds cf v"

inductive reaches :: "(int \<rightharpoonup> CameFromEntry) \<Rightarrow> int \<Rightarrow> int \<Rightarrow> bool" for cf where
  reach_here: "reaches cf u u"
| reach_back: "cf u = Some entry \<Longrightarrow> reaches cf (prevNodeId entry) y \<Longrightarrow> reaches cf u y"

lemma walkBack_ends:
  "chainEnds cf cur \<Longrightarrow> \<exists>r. walkBack cf cur path ids = Some r"
proof (induction arbitrary: path ids rule: chainEnds.induct)
  case (root v)
  then show ?case by (subst walkBack.simps) simp
next
  case (link v entry)
  then show ?case by (subst walkBack.simps) simp
qed

definition scoresDescend :: "AStarState \<Rightarrow> bool" where
  "scoresDescend st =
     (\<forall>v entry. cameFrom st v = Some entry \<longrightarrow>
        (\<exists>gv gu. gScore st v = Some gv \<and> gScore st (prevNodeId entry) = Some gu \<and> gu \<le> gv))"

definition searchInv :: "AStarState \<Rightarrow> bool" where
  "searchInv st = (scoresDescend st \<and> (\<forall>v. chainEnds (cameFrom st) v))"

lemma scoresDescendD:
  "scoresDescend st \<Longrightarrow> cameFrom st v = Some entry \<Longrightarrow>
   \<exists>gv gu. gScore st v = Some gv \<and> gScore st (prevNodeId entry) = Some gu \<and> gu \<le> gv"
  unfolding scoresDescend_def by blast

lemma reaches_score:
  "reaches (cameFrom st) u y \<Longrightarrow> scoresDescend st \<Longrightarrow> gScore st u = Some gu \<Longrightarrow>
   \<exists>gy. gScore st y = Some gy \<and> gy \<le> gu"
proof (induction arbitrary: gu rule: reaches.induct)
  case (reach_here u)
  then show ?case by simp
next
  case (reach_back u entry y)
  from scoresDescendD [OF reach_back.prems(1) reach_back.hyps(1)] reach_back.prems(2)
  obtain gp where gp: "gScore st (prevNodeId entry) = Some gp" "gp \<le> gu"
    by auto
  from reach_back.IH [OF reach_back.prems(1) gp(1)] gp(2) show ?case
    by force
qed

lemma chainEnds_avoid:
  "chainEnds cf u \<Longrightarrow> \<not> reaches cf u v \<Longrightarrow> chainEnds (cf(v \<mapsto> en)) u"
proof (induction rule: chainEnds.induct)
  case (root u)
  then have "u \<noteq> v" using reaches.reach_here [of cf u] by auto
  with root show ?case by (auto intro: chainEnds.root)
next
  case (link u entry)
  have "u \<noteq> v" using link.prems reaches.reach_here [of cf u] by auto
  moreover have "\<not> reaches cf (prevNodeId entry) v"
    using link.prems link.hyps(1) by (auto intro: reaches.reach_back)
  ultimately show ?case
    using link by (auto intro: chainEnds.link)
qed

lemma chainEnds_update:
  "chainEnds cf x \<Longrightarrow> chainEnds (cf(v \<mapsto> en)) (prevNodeId en) \<Longrightarrow> chainEnds (cf(v \<mapsto> en)) x"
proof (induction rule: chainEnds.induct)
  case (root x)
  then show ?case
    by (cases "x = v") (auto intro: chainEnds.root chainEnds.link)
next
  case (link x entry)
  then show ?case
    by (cases "x = v") (auto intro: chainEnds.link)
qed

lemma searchInv_relax:
  assumes inv: "searchInv st"
    and g: "gScore st c = Some g"
    and w: "0 \<le> w"
    and better: "case gScore st v of None \<Rightarrow> True | Some old \<Rightarrow> g + w < old"
  shows "searchInv (st\<lparr> gScore := (gScore st)(v \<mapsto> g + w),
                        cameFrom := (cameFrom st)(v \<mapsto> \<lparr> prevNodeId = c, cf_edge = e, prevWayId = p \<rparr>),
                        openSet := h \<rparr>)"
    and "c \<noteq> v"
proof -
  have nr: "\<not> reaches (cameFrom st) c v"
  proof
    assume "reaches (cameFrom st) c v"
    from reaches_score [OF this _ g] inv obtain gy where "gScore st v = Some gy" "gy \<le> g"
      by (auto simp: searchInv_def)
    with better w show False by simp
  qed
  then show cv: "c \<noteq> v" using reaches.reach_here [of "cameFrom st" c] by auto
  let ?en = "\<lparr> prevNodeId = c, cf_edge = e, prevWayId = p \<rparr>"
  let ?cf = "(cameFrom st)(v \<mapsto> ?en)"
  have "chainEnds ?cf c"
    using chainEnds_avoid [OF _ nr] inv by (simp add: searchInv_def)
  then have chains: "\<forall>x. chainEnds ?cf x"
    using chainEnds_update [of "cameFrom st" _ v ?en] inv by (simp add: searchInv_def)
  have desc: "scoresDescend (st\<lparr> gScore := (gScore st)(v \<mapsto> g + w), cameFrom := ?cf, openSet := h \<rparr>)"
    unfolding scoresDescend_def
  proof (intro allI impI)
    fix x entry
    assume a: "cameFrom (st\<lparr> gScore := (gScore st)(v \<mapsto> g + w), cameFrom := ?cf, openSet := h \<rparr>) x
       = Some entry"
    show "\<exists>gv gu. gScore (st\<lparr> gScore := (gScore st)(v \<mapsto> g + w), cameFrom := ?cf, openSet := h \<rparr>) x = Some gv \<and>
       gScore (st\<lparr> gScore := (gScore st)(v \<mapsto> g + w), cameFrom := ?cf, openSet := h \<rparr>) (prevNodeId entry) = Some gu \<and> gu \<le> gv"
    proof (cases "x = v")
      case True
      with a cv g w show ?thesis by auto
    next
      case False
      with a have old: "cameFrom st x = Some entry" by simp
      have "scoresDescend st" using inv by (simp add: searchInv_def)
      from scoresDescendD [OF this old]
      obtain gx gp where gx: "gScore st x = Some gx" "gScore st (prevNodeId entry) = Some gp" "gp \<le> gx"
        by auto
      show ?thesis
      proof (cases "prevNodeId entry = v")
        case True
        with gx better have "g + w < gp" by simp
        with gx True False show ?thesis by simp
      next
        case pf: False
        with gx False show ?thesis by simp
      qed
    qed
  qed
  show "searchInv (st\<lparr> gScore := (gScore st)(v \<mapsto> g + w), cameFrom := ?cf, openSet := h \<rparr>)"
    using desc chains by (simp add: searchInv_def)
qed


subsection \<open>What the neighbour loop preserves\<close>

text \<open>The loop body in terms of the target node, the comparison and the relaxed state.\<close>

definition targetOf :: "int \<Rightarrow> GraphEdge \<Rightarrow> int" where
  "targetOf c e = (if from_id e = c then to_id e else from_id e)"

definition improves :: "AStarState \<Rightarrow> int \<Rightarrow> real \<Rightarrow> bool" where
  "improves st v t = (case gScore st v of None \<Rightarrow> True | Some old \<Rightarrow> t < old)"

definition relaxed :: "AStarState \<Rightarrow> int \<Rightarrow> GraphEdge \<Rightarrow> real \<Rightarrow> (real \<times> int) list \<Rightarrow> AStarState" where
  "relaxed st c e t h =
     st\<lparr> gScore := (gScore st)(targetOf c e \<mapsto> t),
         cameFrom := (cameFrom st)(targetOf c e \<mapsto>
           \<lparr> prevNodeId = c, cf_edge = e, prevWayId = wayId e \<rparr>),
         openSet := h \<rparr>"

definition rejected :: "RoutingGraph \<Rightarrow> RoutingMode \<Rightarrow> bool \<Rightarrow> int \<Rightarrow> int \<Rightarrow> GraphEdge \<Rightarrow> bool" where
  "rejected graph mode ign w c e =
     (\<not> isEdgeAccessible e mode \<or> \<not> canTraverseDirection e c mode ign
      \<or> turnRestricted graph mode ign w c e \<or> barrierBlocked graph mode ign (targetOf c e))"

definition yieldFirst :: "AStarStep \<Rightarrow> AStarStep list \<times> 'a \<Rightarrow> AStarStep list \<times> 'a" where
  "yieldFirst step p = (step # fst p, snd p)"

lemma expandEdges_Cons:
  "expandEdges graph mode ign endNode c currentG w (e # es) st =
     (if rejected graph mode ign w c e
      then expandEdges graph mode ign endNode c currentG w es st
      else
        (case currentG of
           None \<Rightarrow>
             yieldFirst (Explore e c (targetOf c e))
               (expandEdges graph mode ign endNode c currentG w es st)
         | Some g \<Rightarrow>
             if improves st (targetOf c e) (g + getTravelTime e mode) then
               (case heuristic graph endNode mode (targetOf c e) of
                  None \<Rightarrow> ([Explore e c (targetOf c e)], Inl TypeError)
                | Some h \<Rightarrow>
                    yieldFirst (Explore e c (targetOf c e))
                      (expandEdges graph mode ign endNode c currentG w es
                         (relaxed st c e (g + getTravelTime e mode)
                            (push (openSet st) (g + getTravelTime e mode + h) (targetOf c e)))))
             else
               yieldFirst (Explore e c (targetOf c e))
                 (expandEdges graph mode ign endNode c currentG w es st)))"
  by (simp add: rejected_def targetOf_def improves_def relaxed_def yieldFirst_def Let_def
      split: option.splits prod.splits)

declare expandEdges.simps(2) [simp del]

lemma yieldFirst_eq: "yieldFirst step p = (steps, r) \<longleftrightarrow> (\<exists>more. steps = step # more \<and> p = (more, r))"
  by (cases p) (auto simp: yieldFirst_def)

lemma expandEdges_preserves:
  assumes res: "expandEdges graph mode ign endNode c currentG w es st = (steps, Inr st')"
    and Q: "Q st"
    and sub: "set es \<subseteq> S"
    and step: "\<And>st e g h. Q st \<Longrightarrow> e \<in> S \<Longrightarrow> currentG = Some g \<Longrightarrow>
       improves st (targetOf c e) (g + getTravelTime e mode) \<Longrightarrow>
       Q (relaxed st c e (g + getTravelTime e mode) h)"
  shows "Q st'"
  using res Q sub
proof (induction es arbitrary: st steps)
  case Nil
  then show ?case by simp
next
  case (Cons e es)
  have sub: "set es \<subseteq> S" and eS: "e \<in> S"
    using Cons.prems(3) by auto
  show ?case
  proof (cases "rejected graph mode ign w c e")
    case True
    then have "expandEdges graph mode ign endNode c currentG w es st = (steps, Inr st')"
      using Cons.prems(1) by (simp add: expandEdges_Cons)
    from Cons.IH [OF this Cons.prems(2) sub] show ?thesis .
  next
    case pass: False
    show ?thesis
    proof (cases currentG)
      case None
      then obtain more where "expandEdges graph mode ign endNode c currentG w es st = (more, Inr st')"
        using Cons.prems(1) pass by (auto simp: expandEdges_Cons yieldFirst_eq)
      from Cons.IH [OF this Cons.prems(2) sub] show ?thesis .
    next
      case (Some g)
      show ?thesis
      proof (cases "improves st (targetOf c e) (g + getTravelTime e mode)")
        case False
        then obtain more where "expandEdges graph mode ign endNode c currentG w es st = (more, Inr st')"
          using Cons.prems(1) pass Some by (auto simp: expandEdges_Cons yieldFirst_eq)
        from Cons.IH [OF this Cons.prems(2) sub] show ?thesis .
      next
        case True
        then obtain h more where
          more: "expandEdges graph mode ign endNode c currentG w es
            (relaxed st c e (g + getTravelTime e mode) h) = (more, Inr st')"
          using Cons.prems(1) pass Some
          by (auto simp: expandEdges_Cons yieldFirst_eq split: option.splits)
        have "Q (relaxed st c e (g + getTravelTime e mode) h)"
          using step [OF Cons.prems(2) eS Some True] .
        from Cons.IH [OF more this sub] show ?thesis .
      qed
    qed
  qed
qed

lemma heuristic_known:
  "v \<in> dom (nodes graph) \<Longrightarrow> \<exists>h. heuristic graph endNode mode v = Some h"
  by (auto simp: heuristic_def Let_def)

lemma expandEdges_no_error:
  assumes "\<forall>e \<in> set es. from_id e \<in> dom (nodes graph) \<and> to_id e \<in> dom (nodes graph)"
  shows "\<exists>steps st'. expandEdges graph mode ign endNode c currentG w es st = (steps, Inr st')"
  using assms
proof (induction es arbitrary: st)
  case Nil
  then show ?case by simp
next
  case (Cons e es)
  then have IH: "\<And>st. \<exists>steps st'. expandEdges graph mode ign endNode c currentG w es st = (steps, Inr st')"
    by simp
  have "targetOf c e \<in> dom (nodes graph)"
    using Cons.prems by (simp add: targetOf_def)
  from heuristic_known [OF this]
  obtain h where h: "heuristic graph endNode mode (targetOf c e) = Some h"
    by blast
  have yf: "\<And>step st. \<exists>steps st'. yieldFirst step (expandEdges graph mode ign endNode c currentG w es st)
      = (steps, Inr st')"
    using IH by (metis yieldFirst_eq)
  show ?case
    using IH yf h by (auto simp: expandEdges_Cons split: option.splits)
qed


subsection \<open>The search ends with a terminal step\<close>

lemma searchInv_cong:
  "gScore a = gScore b \<Longrightarrow> cameFrom a = cameFrom b \<Longrightarrow> searchInv a = searchInv b"
  by (simp add: searchInv_def scoresDescend_def)

lemma searchInv_relaxed:
  assumes "searchInv st" "gScore st c = Some g" "0 \<le> w" "improves st (targetOf c e) (g + w)"
  shows "searchInv (relaxed st c e (g + w) h) \<and> gScore (relaxed st c e (g + w) h) c = Some g"
proof -
  have b: "case gScore st (targetOf c e) of None \<Rightarrow> True | Some old \<Rightarrow> g + w < old"
    using assms(4) by (simp add: improves_def)
  from searchInv_relax(1) [where e = e and p = "wayId e" and h = h, OF assms(1,2,3) b]
    searchInv_relax(2) [OF assms(1,2,3) b]
  show ?thesis using assms(2) by (simp add: relaxed_def)
qed

lemma expandEdges_searchInv:
  assumes res: "expandEdges graph mode ign endNode c (gScore st c) w es st = (steps, Inr st')"
    and inv: "searchInv st"
    and nn: "\<forall>e \<in> set es. 0 \<le> distance e"
  shows "searchInv st'"
proof -
  have "searchInv st' \<and> gScore st' c = gScore st c"
  proof (rule expandEdges_preserves [OF res, where S = "{e. 0 \<le> distance e}"
        and Q = "\<lambda>x. searchInv x \<and> gScore x c = gScore st c"])
    show "searchInv st \<and> gScore st c = gScore st c" using inv by simp
    show "set es \<subseteq> {e. 0 \<le> distance e}" using nn by auto
  next
    fix x e g h
    assume a: "searchInv x \<and> gScore x c = gScore st c" "e \<in> {e. 0 \<le> distance e}"
      "gScore st c = Some g" "improves x (targetOf c e) (g + getTravelTime e mode)"
    have "0 \<le> getTravelTime e mode" using a(2) by (simp add: getTravelTime_nonneg)
    from searchInv_relaxed [OF _ _ this a(4), of h] a(1,3)
    show "searchInv (relaxed x c e (g + getTravelTime e mode) h) \<and>
        gScore (relaxed x c e (g + getTravelTime e mode) h) c = gScore st c"
      by simp
  qed
  then show ?thesis by simp
qed

lemma search_total:
  assumes known: "endpointsKnown graph" and nn: "distancesNonNegative graph"
  shows "searchInv st \<Longrightarrow> \<exists>steps. search graph s e endNode mode ign st = Some (steps, None)"
proof (induction st rule: search_induct [where e = e and graph = graph and mode = mode
      and ign = ign and endNode = endNode])
  case (iter st)
  show ?case
  proof (cases rule: search_cases [where st = st and e = e and graph = graph and mode = mode
        and ign = ign and endNode = endNode])
    case empty
    then show ?thesis by (simp add: search_empty)
  next
    case (closed c rest)
    have "searchInv (st\<lparr>openSet := rest\<rparr>)"
      using iter.prems searchInv_cong [of "st\<lparr>openSet := rest\<rparr>" st] by simp
    from iter.IH(1) [OF closed this] closed show ?thesis
      by (simp add: search_closed)
  next
    case (goal c rest)
    have "chainEnds (cameFrom st) e" using iter.prems by (simp add: searchInv_def)
    from walkBack_ends [OF this] obtain r where "walkBack (cameFrom st) e [] [] = Some r"
      by blast
    with goal show ?thesis
      by (cases r) (simp add: search_goal)
  next
    case (no_neighbors c rest)
    have "searchInv (closeNode st c rest)"
      using iter.prems searchInv_cong [of "closeNode st c rest" st] by (simp add: closeNode_def)
    from iter.IH(2) [OF no_neighbors this] no_neighbors show ?thesis
      by (simp add: search_no_neighbors)
  next
    case (error c rest neighbors steps err)
    have "\<forall>e \<in> set neighbors. from_id e \<in> dom (nodes graph) \<and> to_id e \<in> dom (nodes graph)"
      using known neighbors_graphEdges [OF error(4)] by (auto simp: endpointsKnown_def)
    from expandEdges_no_error [OF this] error(5) show ?thesis
      by (metis Inl_Inr_False prod.inject)
  next
    case (expand c rest neighbors steps st')
    have inv: "searchInv (closeNode st c rest)"
      using iter.prems searchInv_cong [of "closeNode st c rest" st] by (simp add: closeNode_def)
    have nnb: "\<forall>e \<in> set neighbors. 0 \<le> distance e"
      using nn neighbors_graphEdges [OF expand(4)] by (auto simp: distancesNonNegative_def)
    have "gScore (closeNode st c rest) c = gScore st c" by (simp add: closeNode_def)
    with expand(5) have "expandEdges graph mode ign endNode c (gScore (closeNode st c rest) c)
        (currentWayIdOf st c) neighbors (closeNode st c rest) = (steps, Inr st')"
      by simp
    from expandEdges_searchInv [OF this inv nnb] have "searchInv st'" .
    from iter.IH(3) [OF expand this] obtain more where
      "search graph s e endNode mode ign st' = Some (more, None)" by blast
    with expand show ?thesis
      by (simp add: search_expand yieldThen_def)
  qed
qed

lemma searchInv_initial:
  "searchInv \<lparr> gScore = g, cameFrom = Map.empty, openSet = h, closedSet = cl \<rparr>"
  by (simp add: searchInv_def scoresDescend_def chainEnds.root)

text \<open>
  C4. For every graph whose edge endpoints all have an entry in \<open>nodes\<close> and whose edge
  distances are not negative, and for every start, end, mode and options, the search
  ends without an error, and its step sequence holds exactly one terminal step
  (\<open>done\<close> or \<open>no-route\<close>), which is its last element; every step before it is an
  \<open>explore\<close> step.
\<close>

theorem C4_one_terminal_step_last:
  assumes "endpointsKnown graph" and "distancesNonNegative graph"
  shows "\<exists>steps. aStarRoute graph startNodeId endNodeId mode options = Some (steps, None)
           \<and> oneTerminalLast steps"
proof (cases "nodes graph endNodeId")
  case None
  then show ?thesis by (simp add: aStarRoute_def oneTerminalLast_def)
next
  case (Some endNode)
  show ?thesis
  proof (cases "nodes graph startNodeId")
    case None
    with Some show ?thesis by (simp add: aStarRoute_def oneTerminalLast_def)
  next
    case start: (Some startNode)
    show ?thesis
    proof (cases "startNodeId = endNodeId")
      case True
      with Some start show ?thesis by (simp add: aStarRoute_def oneTerminalLast_def)
    next
      case False
      have "startNodeId \<in> dom (nodes graph)" using start by auto
      from heuristic_known [OF this] obtain h where
        h: "heuristic graph endNode mode startNodeId = Some h" by blast
      let ?st = "\<lparr> gScore = [startNodeId \<mapsto> 0], cameFrom = Map.empty,
                   openSet = push [] h startNodeId, closedSet = {} \<rparr>"
      from search_total [OF assms searchInv_initial] obtain steps where
        steps: "search graph startNodeId endNodeId endNode mode (ignoring options) ?st
           = Some (steps, None)" by blast
      from search_shape [OF steps] have "oneTerminalLast steps" by simp
      with steps Some start False h show ?thesis
        by (simp add: aStarRoute_def)
    qed
  qed
qed

subsection \<open>Concrete graphs\<close>

text \<open>The helpers of the test suite; all nodes are placed at the same coordinates.\<close>

definition makeNode :: "int \<Rightarrow> GraphNode" where
  "makeNode i = \<lparr> node_id = i, lat = 0, lon = 0, barrier = None \<rparr>"

definition makeEdge :: "int \<Rightarrow> int \<Rightarrow> int \<Rightarrow> bool \<Rightarrow> real \<Rightarrow> GraphEdge" where
  "makeEdge f t w r d =
     \<lparr> from_id = f, to_id = t, wayId = w, highway = ''residential'', maxspeed = 30,
       oneway = False, onewayBicycle = False, isReverse = r, distance = d,
       geometry = [(0, 0), (1, 1)], access = None, motorVehicle = None, vehicle = None,
       bicycle = None, foot = None \<rparr>"

text \<open>The linear graph 1 -- 2 -- 3 with both segments 100 m long.\<close>

definition lineGraph :: RoutingGraph where
  "lineGraph =
     \<lparr> nodes = [1 \<mapsto> makeNode 1, 2 \<mapsto> makeNode 2, 3 \<mapsto> makeNode 3],
       adjacency =
         [(1, [makeEdge 1 2 100 False 100]),
          (2, [makeEdge 2 1 100 True 100, makeEdge 2 3 200 False 100]),
          (3, [makeEdge 3 2 200 True 100])],
       restrictions = [] \<rparr>"

text \<open>An edge from node 1 to a node 2 that has no entry in \<open>nodes\<close>.\<close>

definition danglingGraph :: RoutingGraph where
  "danglingGraph =
     \<lparr> nodes = [1 \<mapsto> makeNode 1, 3 \<mapsto> makeNode 3],
       adjacency = [(1, [makeEdge 1 2 100 False 100])],
       restrictions = [] \<rparr>"

text \<open>The linear graph with a negative distance on the edge from 2 back to 1.\<close>

definition negativeGraph :: RoutingGraph where
  "negativeGraph =
     \<lparr> nodes = [1 \<mapsto> makeNode 1, 2 \<mapsto> makeNode 2, 3 \<mapsto> makeNode 3],
       adjacency =
         [(1, [makeEdge 1 2 100 False 100]),
          (2, [makeEdge 2 1 100 True (- 1000), makeEdge 2 3 200 False 100]),
          (3, [makeEdge 3 2 200 True 100])],
       restrictions = [] \<rparr>"

definition noOptions :: AStarOptions where
  "noOptions = \<lparr> ignoreRestrictions = None \<rparr>"

lemma haversine_same [simp]: "haversine a b a b = 0"
  by (simp add: haversine_def toRad_def atan2_def)

lemma heuristic_makeNode [simp]:
  "nodes graph v = Some (makeNode i) \<Longrightarrow> heuristic graph (makeNode j) mode v = Some 0"
  by (simp add: heuristic_def makeNode_def)

lemma makeEdge_accessible [simp]: "isEdgeAccessible (makeEdge f t w r d) mode"
  by (cases mode) (simp_all add: isEdgeAccessible_def makeEdge_def ROAD_ACCESS_def modeRow_def)

lemma makeEdge_direction [simp]: "canTraverseDirection (makeEdge f t w r d) c mode ign"
  by (simp add: canTraverseDirection_def makeEdge_def)

lemma makeEdge_time [simp]: "getTravelTime (makeEdge f t w r d) Car = d * 3 / 25"
  by (simp add: getTravelTime_def getTravelSpeed_def makeEdge_def)

lemma makeEdge_fields [simp]:
  "from_id (makeEdge f t w r d) = f" "to_id (makeEdge f t w r d) = t"
  "wayId (makeEdge f t w r d) = w" "distance (makeEdge f t w r d) = d"
  by (simp_all add: makeEdge_def)

lemma makeNode_not_blocking [simp]: "\<not> isBarrierBlocking (makeNode i) mode"
  by (simp add: isBarrierBlocking_def makeNode_def)

lemma bubbleUp_root: "bubbleUp items 0 = items"
  by (subst bubbleUp.simps) simp

lemma bubbleUp_stop:
  "i > 0 \<Longrightarrow> fst (items ! i) \<ge> fst (items ! ((i - 1) div 2)) \<Longrightarrow> bubbleUp items i = items"
  by (subst bubbleUp.simps) simp

lemma bubbleUp_swap:
  "i > 0 \<Longrightarrow> \<not> fst (items ! i) \<ge> fst (items ! ((i - 1) div 2)) \<Longrightarrow>
   bubbleUp items i = bubbleUp (swap items i ((i - 1) div 2)) ((i - 1) div 2)"
  by (subst bubbleUp.simps) (simp add: Let_def)

lemma sinkDown_stop: "pickSmallest items i = i \<Longrightarrow> sinkDown items i = items"
  by (subst sinkDown.simps) simp

lemma sinkDown_swap:
  "pickSmallest items i \<noteq> i \<Longrightarrow>
   sinkDown items i = sinkDown (swap items i (pickSmallest items i)) (pickSmallest items i)"
  by (subst sinkDown.simps) (simp add: Let_def)

lemmas heap_eval = push_def pop_def bubbleUp_root bubbleUp_stop bubbleUp_swap sinkDown_stop
  sinkDown_swap pickSmallest_def swap_def Let_def

lemmas loop_eval = expandEdges_Cons rejected_def targetOf_def improves_def relaxed_def
  yieldFirst_def turnRestricted_def barrierBlocked_def isRestricted_def

lemma lineGraph_run:
  "aStarRoute lineGraph 1 3 Car noOptions =
     Some ([Explore (makeEdge 1 2 100 False 100) 1 2,
            Explore (makeEdge 2 1 100 True 100) 2 1,
            Explore (makeEdge 2 3 200 False 100) 2 3,
            Done [makeEdge 1 2 100 False 100, makeEdge 2 3 200 False 100] [1, 2, 3] (Some 24)],
           None)"
  apply (simp add: aStarRoute_def lineGraph_def noOptions_def ignoring_def)
  apply (subst search.simps, simp add: heap_eval loop_eval)
  apply (subst search.simps, simp add: heap_eval loop_eval)
  apply (subst search.simps, simp add: heap_eval loop_eval walkBack.simps yieldThen_def)
  done

lemma danglingGraph_run:
  "aStarRoute danglingGraph 1 3 Car noOptions =
     Some ([Explore (makeEdge 1 2 100 False 100) 1 2], Some TypeError)"
  apply (simp add: aStarRoute_def danglingGraph_def noOptions_def ignoring_def)
  apply (subst search.simps, simp add: heap_eval loop_eval heuristic_def)
  done


subsection \<open>A cycle of predecessor links\<close>

lemma walkBack_only_if_ends:
  assumes "walkBack cf cur path ids = Some r"
  shows "chainEnds cf cur"
proof (rule walkBack.raw_induct [where P = "\<lambda>cf cur path ids r. chainEnds cf cur", OF _ assms])
  fix walkBack' cf cur path ids r
  assume IH: "\<And>cf cur path ids r. walkBack' cf cur path ids = Some r \<Longrightarrow> chainEnds cf cur"
    and eq: "(case cf cur of None \<Rightarrow> Some (path, ids)
       | Some entry \<Rightarrow> walkBack' cf (prevNodeId entry) (path @ [cf_edge entry]) (ids @ [cur])) = Some r"
  show "chainEnds cf cur"
  proof (cases "cf cur")
    case None
    then show ?thesis by (rule chainEnds.root)
  next
    case (Some entry)
    with eq have "walkBack' cf (prevNodeId entry) (path @ [cf_edge entry]) (ids @ [cur]) = Some r"
      by simp
    from Some IH [OF this] show ?thesis by (rule chainEnds.link)
  qed
qed

definition twoCycle :: "(int \<rightharpoonup> CameFromEntry) \<Rightarrow> int \<Rightarrow> bool" where
  "twoCycle cf a =
     (case cf a of
        None \<Rightarrow> False
      | Some ea \<Rightarrow> (case cf (prevNodeId ea) of None \<Rightarrow> False | Some eb \<Rightarrow> prevNodeId eb = a))"

lemma twoCycle_never_ends:
  assumes "twoCycle cf a"
  shows "chainEnds cf v \<Longrightarrow> v \<noteq> a \<and> (\<forall>ea. cf a = Some ea \<longrightarrow> v \<noteq> prevNodeId ea)"
proof (induction rule: chainEnds.induct)
  case (root v)
  then show ?case using assms by (auto simp: twoCycle_def split: option.splits)
next
  case (link v entry)
  then show ?case using assms by (auto simp: twoCycle_def split: option.splits)
qed

lemma walkBack_twoCycle: "twoCycle cf a \<Longrightarrow> walkBack cf a path ids = None"
proof (rule ccontr)
  assume c: "twoCycle cf a" and "walkBack cf a path ids \<noteq> None"
  then obtain r where "walkBack cf a path ids = Some r" by auto
  from walkBack_only_if_ends [OF this] twoCycle_never_ends [OF c] show False by blast
qed


lemma negativeGraph_run: "aStarRoute negativeGraph 1 3 Car noOptions = None"
  apply (simp add: aStarRoute_def negativeGraph_def noOptions_def ignoring_def)
  apply (subst search.simps, simp add: heap_eval loop_eval)
  apply (subst search.simps, simp add: heap_eval loop_eval)
  apply (subst search.simps, simp add: heap_eval loop_eval)
  apply (subst search.simps, simp add: heap_eval loop_eval yieldThen_def)
  apply (subst walkBack.simps, simp)
  apply (subst walkBack_twoCycle, simp_all add: twoCycle_def)
  done


subsection \<open>Exactly one terminal step, always last\<close>

lemma lineGraph_wellformed: "endpointsKnown lineGraph \<and> distancesNonNegative lineGraph"
  by (simp add: endpointsKnown_def distancesNonNegative_def graphEdges_def lineGraph_def)

theorem C4_one_terminal_step_last_witness:
  "endpointsKnown lineGraph \<and> distancesNonNegative lineGraph
   \<and> oneTerminalLast
        [Explore (makeEdge 1 2 100 False 100) 1 2,
         Explore (makeEdge 2 1 100 True 100) 2 1,
         Explore (makeEdge 2 3 200 False 100) 2 3,
         Done [makeEdge 1 2 100 False 100, makeEdge 2 3 200 False 100] [1, 2, 3] (Some 24)]"
proof -
  have wf: "endpointsKnown lineGraph" "distancesNonNegative lineGraph"
    using lineGraph_wellformed by simp_all
  from C4_one_terminal_step_last [OF wf, of 1 3 Car noOptions] lineGraph_run wf
  show ?thesis by simp
qed

text \<open>
  Without the two conditions the claim fails. On \<open>danglingGraph\<close> the generator yields
  one \<open>explore\<close> step and then throws, reading the coordinates of node 2; on
  \<open>negativeGraph\<close> the path reconstruction follows the links 2, 1, 2, 1, ... for ever
  and no terminal step is produced.
\<close>

theorem C4_no_terminal_step_counterexample:
  "aStarRoute danglingGraph 1 3 Car noOptions
     = Some ([Explore (makeEdge 1 2 100 False 100) 1 2], Some TypeError)
   \<and> \<not> oneTerminalLast [Explore (makeEdge 1 2 100 False 100) 1 2]
   \<and> aStarRoute negativeGraph 1 3 Car noOptions = None"
  by (simp add: danglingGraph_run negativeGraph_run oneTerminalLast_def)

subsection \<open>Edge cases of the search\<close>

text \<open>
  C5. If the start or the end node id has no entry in \<open>graph.nodes\<close>, the search yields
  the single step \<open>no-route\<close>. Otherwise, if the start equals the end, it yields the
  single step \<open>done\<close> with an empty edge path, the node path \<open>[startNodeId]\<close> and total
  time 0. No \<open>explore\<close> step is produced in either case.
\<close>

theorem C5_edge_cases:
  "(nodes graph startNodeId = None \<or> nodes graph endNodeId = None \<longrightarrow>
      aStarRoute graph startNodeId endNodeId mode options = Some ([NoRoute], None))
   \<and> (nodes graph startNodeId \<noteq> None \<and> startNodeId = endNodeId \<longrightarrow>
      aStarRoute graph startNodeId endNodeId mode options
        = Some ([Done [] [startNodeId] (Some 0)], None))"
  by (auto simp: aStarRoute_def split: option.splits)

theorem C5_edge_cases_witness:
  "nodes lineGraph 5 = None
   \<and> aStarRoute lineGraph 1 5 Car noOptions = Some ([NoRoute], None)
   \<and> aStarRoute lineGraph 5 1 Car noOptions = Some ([NoRoute], None)
   \<and> nodes lineGraph 2 \<noteq> None
   \<and> aStarRoute lineGraph 2 2 Car noOptions = Some ([Done [] [2] (Some 0)], None)"
  using C5_edge_cases [of lineGraph 1 5 Car noOptions]
    C5_edge_cases [of lineGraph 5 1 Car noOptions]
    C5_edge_cases [of lineGraph 2 2 Car noOptions]
  by (simp add: lineGraph_def)

subsection \<open>Turn restrictions\<close>

lemma isRestrictedIn_iff:
  "isRestrictedIn rs fromWay viaNode toWay \<longleftrightarrow>
     (\<exists>r \<in> set rs. fromWayId r = fromWay \<and> viaNodeId r = viaNode \<and> toWayId r = toWay
        \<and> prefix ''no_'' (rtype r))"
  by (induction rs) auto

lemma only_is_not_no: "prefix ''only_'' s \<Longrightarrow> \<not> prefix ''no_'' s"
  by (auto simp: prefix_def)

lemma isRestrictedIn_drop_only:
  "isRestrictedIn (filter (\<lambda>r. \<not> prefix ''only_'' (rtype r)) rs) fromWay viaNode toWay
     = isRestrictedIn rs fromWay viaNode toWay"
  by (auto simp: isRestrictedIn_iff dest: only_is_not_no)

text \<open>The search reads \<open>restrictions\<close> only through the turn restriction check.\<close>

lemma expandEdges_cong_graph:
  assumes "nodes graph' = nodes graph"
    and "\<And>w c e. turnRestricted graph' mode ign w c e = turnRestricted graph mode ign w c e"
  shows "expandEdges graph' mode ign endNode c currentG w es st
       = expandEdges graph mode ign endNode c currentG w es st"
proof -
  have r: "rejected graph' mode ign w c e = rejected graph mode ign w c e" for e
    by (simp add: rejected_def barrierBlocked_def assms)
  have h: "heuristic graph' endNode mode v = heuristic graph endNode mode v" for v
    by (simp add: heuristic_def assms)
  show ?thesis
  proof (induction es arbitrary: st currentG)
    case Nil
    show ?case by simp
  next
    case (Cons e es)
    show ?case
      by (simp add: expandEdges_Cons r h Cons split: option.splits)
  qed
qed

lemma search_cong_graph:
  assumes n: "nodes graph' = nodes graph"
    and a: "adjacency graph' = adjacency graph"
    and t: "\<And>w c e. turnRestricted graph' mode ign w c e = turnRestricted graph mode ign w c e"
  shows "search graph' s e endNode mode ign st = search graph s e endNode mode ign st"
proof (induction st rule: search_induct [where e = e and graph = graph and mode = mode
      and ign = ign and endNode = endNode])
  case (iter st)
  note ee = expandEdges_cong_graph [OF n t]
  show ?case
  proof (cases rule: search_cases [where st = st and e = e and graph = graph and mode = mode
        and ign = ign and endNode = endNode])
    case empty
    then show ?thesis by (simp add: search_empty)
  next
    case (closed c rest)
    with iter.IH(1) show ?thesis by (simp add: search_closed)
  next
    case (goal c rest)
    then show ?thesis by (simp add: search_goal)
  next
    case (no_neighbors c rest)
    with iter.IH(2) a show ?thesis by (simp add: search_no_neighbors)
  next
    case (error c rest neighbors steps err)
    with a ee show ?thesis by (simp add: search_error)
  next
    case (expand c rest neighbors steps st')
    with a ee iter.IH(3) [OF expand] show ?thesis by (simp add: search_expand)
  qed
qed

lemma aStarRoute_cong_graph:
  assumes "nodes graph' = nodes graph"
    and "adjacency graph' = adjacency graph"
    and "\<And>w c e. turnRestricted graph' mode (ignoring options) w c e
           = turnRestricted graph mode (ignoring options) w c e"
  shows "aStarRoute graph' s e mode options = aStarRoute graph s e mode options"
proof -
  have h: "heuristic graph' endNode mode v = heuristic graph endNode mode v" for endNode v
    by (simp add: heuristic_def assms)
  show ?thesis
    using assms(1) search_cong_graph [OF assms]
    by (simp add: aStarRoute_def h cong: option.case_cong if_cong)
qed

text \<open>With no restrictions recorded, no turn is restricted.\<close>

lemma turnRestricted_none:
  "\<not> turnRestricted (graph\<lparr>restrictions := []\<rparr>) mode ign w c e"
  by (simp add: turnRestricted_def isRestricted_def)

lemma rejected_turn:
  "rejected graph mode ign w c e \<longleftrightarrow>
     turnRestricted graph mode ign w c e
     \<or> rejected (graph\<lparr>restrictions := []\<rparr>) mode ign w c e"
  by (auto simp: rejected_def barrierBlocked_def turnRestricted_none)

lemma heuristic_restrictions:
  "heuristic (graph\<lparr>restrictions := rs\<rparr>) endNode mode v = heuristic graph endNode mode v"
  by (simp add: heuristic_def)

text \<open>The neighbour loop is the loop without restrictions over the candidates that the
  turn restriction check lets through.\<close>

lemma expandEdges_filter:
  "expandEdges graph mode ign endNode c currentG w es st
     = expandEdges (graph\<lparr>restrictions := []\<rparr>) mode ign endNode c currentG w
         (filter (\<lambda>e. \<not> turnRestricted graph mode ign w c e) es) st"
proof (induction es arbitrary: st)
  case Nil
  show ?case by simp
next
  case (Cons e es)
  show ?case
  proof (cases "turnRestricted graph mode ign w c e")
    case True
    then have "rejected graph mode ign w c e"
      by (simp add: rejected_def)
    then have "expandEdges graph mode ign endNode c currentG w (e # es) st
        = expandEdges graph mode ign endNode c currentG w es st"
      by (subst expandEdges_Cons) simp
    with True Cons show ?thesis by simp
  next
    case False
    then have r: "rejected graph mode ign w c e
        = rejected (graph\<lparr>restrictions := []\<rparr>) mode ign w c e"
      using rejected_turn [of graph mode ign w c e] by blast
    have f: "filter (\<lambda>e. \<not> turnRestricted graph mode ign w c e) (e # es)
        = e # filter (\<lambda>e. \<not> turnRestricted graph mode ign w c e) es"
      using False by simp
    show ?thesis
      unfolding f
      by (simp only: expandEdges_Cons r Cons heuristic_restrictions)

  qed
qed

lemma turnRestricted_iff:
  "turnRestricted graph mode ign w c e \<longleftrightarrow>
     mode = Car \<and> \<not> ign \<and> w \<noteq> 0
     \<and> (\<exists>r \<in> set (restrictions graph).
           fromWayId r = w \<and> viaNodeId r = c \<and> toWayId r = wayId e
           \<and> prefix ''no_'' (rtype r))"
  by (auto simp: turnRestricted_def isRestricted_def isRestrictedIn_iff)

lemma search_step:
  assumes "pop (openSet st) = Some (c, rest)" "c \<notin> closedSet st" "c \<noteq> e"
    "map_of (adjacency graph) c = Some neighbors"
  shows "search graph s e endNode mode ign st =
     (case expandEdges graph mode ign endNode c (gScore st c)
             (case cameFrom st c of Some entry \<Rightarrow> wayId (cf_edge entry) | None \<Rightarrow> 0)
             neighbors (st\<lparr>openSet := rest, closedSet := insert c (closedSet st)\<rparr>)
      of (steps, Inl err) \<Rightarrow> Some (steps, Some err)
       | (steps, Inr st') \<Rightarrow> yieldThen steps (search graph s e endNode mode ign st'))"
  using assms by (subst search.simps) (simp add: Let_def)


text \<open>
  C3. The neighbour loop rejects a candidate edge for a turn restriction exactly when
  the mode is car, \<open>ignoreRestrictions\<close> is off, the current node was reached over an
  edge (the way id 0 stands for none) and some recorded restriction whose type starts
  with \<open>no_\<close> has exactly the way id of that edge, the id of the current node and the
  way id of the candidate as its \<open>fromWayId\<close>, \<open>viaNodeId\<close> and \<open>toWayId\<close>: the loop
  does what the loop without any restriction does on the candidates that are no such
  turn. The current way id of the main loop is the way id of the edge that \<open>cameFrom\<close>
  records for the node it expands: a round of the main loop on a node with neighbours
  is the round without any restriction on the neighbours that are no such turn from
  that edge. A bicycle or pedestrian search and a search with \<open>ignoreRestrictions\<close> run
  the same whatever the restrictions are, and removing the restrictions of an \<open>only_*\<close>
  type changes no search.
\<close>

theorem C3_turn_restrictions:
  "expandEdges graph mode ign endNode currentId currentG currentWayId es st
     = expandEdges (graph\<lparr>restrictions := []\<rparr>) mode ign endNode currentId currentG
         currentWayId
         (filter (\<lambda>e. \<not> (mode = Car \<and> \<not> ign \<and> currentWayId \<noteq> 0
                     \<and> (\<exists>r \<in> set (restrictions graph).
                           fromWayId r = currentWayId \<and> viaNodeId r = currentId
                           \<and> toWayId r = wayId e \<and> prefix ''no_'' (rtype r)))) es)
         st
   \<and> (pop (openSet st0) = Some (c, rest) \<and> c \<notin> closedSet st0 \<and> c \<noteq> endNodeId
        \<and> map_of (adjacency graph) c = Some neighbors \<longrightarrow>
        search graph startNodeId endNodeId endNode mode ign st0 =
          (case expandEdges (graph\<lparr>restrictions := []\<rparr>) mode ign endNode c (gScore st0 c)
                  (case cameFrom st0 c of
                     Some currentEntry \<Rightarrow> wayId (cf_edge currentEntry)
                   | None \<Rightarrow> 0)
                  (filter (\<lambda>e. \<not> (mode = Car \<and> \<not> ign
                              \<and> (\<exists>currentEntry.
                                    cameFrom st0 c = Some currentEntry
                                    \<and> wayId (cf_edge currentEntry) \<noteq> 0
                                    \<and> (\<exists>r \<in> set (restrictions graph).
                                          fromWayId r = wayId (cf_edge currentEntry)
                                          \<and> viaNodeId r = c \<and> toWayId r = wayId e
                                          \<and> prefix ''no_'' (rtype r))))) neighbors)
                  (st0\<lparr>openSet := rest, closedSet := insert c (closedSet st0)\<rparr>)
           of (steps, Inl err) \<Rightarrow> Some (steps, Some err)
            | (steps, Inr st') \<Rightarrow>
                yieldThen steps (search graph startNodeId endNodeId endNode mode ign st')))
   \<and> (mode \<noteq> Car \<or> ignoring options \<longrightarrow>
        aStarRoute (graph\<lparr>restrictions := rs\<rparr>) startNodeId endNodeId mode options
          = aStarRoute graph startNodeId endNodeId mode options)
   \<and> aStarRoute (graph\<lparr>restrictions :=
          filter (\<lambda>r. \<not> prefix ''only_'' (rtype r)) (restrictions graph)\<rparr>)
        startNodeId endNodeId mode options
      = aStarRoute graph startNodeId endNodeId mode options"
proof (intro conjI impI)
  show "expandEdges graph mode ign endNode currentId currentG currentWayId es st
     = expandEdges (graph\<lparr>restrictions := []\<rparr>) mode ign endNode currentId currentG
         currentWayId
         (filter (\<lambda>e. \<not> (mode = Car \<and> \<not> ign \<and> currentWayId \<noteq> 0
                     \<and> (\<exists>r \<in> set (restrictions graph).
                           fromWayId r = currentWayId \<and> viaNodeId r = currentId
                           \<and> toWayId r = wayId e \<and> prefix ''no_'' (rtype r)))) es)
         st"
    using expandEdges_filter [of graph mode ign endNode currentId currentG currentWayId es st]
    by (simp only: turnRestricted_iff)
next
  assume "pop (openSet st0) = Some (c, rest) \<and> c \<notin> closedSet st0 \<and> c \<noteq> endNodeId
        \<and> map_of (adjacency graph) c = Some neighbors"
  then have step: "search graph startNodeId endNodeId endNode mode ign st0 =
          (case expandEdges graph mode ign endNode c (gScore st0 c)
                  (case cameFrom st0 c of
                     Some currentEntry \<Rightarrow> wayId (cf_edge currentEntry)
                   | None \<Rightarrow> 0)
                  neighbors (st0\<lparr>openSet := rest, closedSet := insert c (closedSet st0)\<rparr>)
           of (steps, Inl err) \<Rightarrow> Some (steps, Some err)
            | (steps, Inr st') \<Rightarrow>
                yieldThen steps (search graph startNodeId endNodeId endNode mode ign st'))"
    by (intro search_step) simp_all
  have turn: "turnRestricted graph mode ign
        (case cameFrom st0 c of
           Some currentEntry \<Rightarrow> wayId (cf_edge currentEntry)
         | None \<Rightarrow> 0) c e
      \<longleftrightarrow> mode = Car \<and> \<not> ign
          \<and> (\<exists>currentEntry.
                cameFrom st0 c = Some currentEntry
                \<and> wayId (cf_edge currentEntry) \<noteq> 0
                \<and> (\<exists>r \<in> set (restrictions graph).
                      fromWayId r = wayId (cf_edge currentEntry)
                      \<and> viaNodeId r = c \<and> toWayId r = wayId e
                      \<and> prefix ''no_'' (rtype r)))" for e
    by (cases "cameFrom st0 c") (auto simp: turnRestricted_iff)
  show "search graph startNodeId endNodeId endNode mode ign st0 =
          (case expandEdges (graph\<lparr>restrictions := []\<rparr>) mode ign endNode c (gScore st0 c)
                  (case cameFrom st0 c of
                     Some currentEntry \<Rightarrow> wayId (cf_edge currentEntry)
                   | None \<Rightarrow> 0)
                  (filter (\<lambda>e. \<not> (mode = Car \<and> \<not> ign
                              \<and> (\<exists>currentEntry.
                                    cameFrom st0 c = Some currentEntry
                                    \<and> wayId (cf_edge currentEntry) \<noteq> 0
                                    \<and> (\<exists>r \<in> set (restrictions graph).
                                          fromWayId r = wayId (cf_edge currentEntry)
                                          \<and> viaNodeId r = c \<and> toWayId r = wayId e
                                          \<and> prefix ''no_'' (rtype r))))) neighbors)
                  (st0\<lparr>openSet := rest, closedSet := insert c (closedSet st0)\<rparr>)
           of (steps, Inl err) \<Rightarrow> Some (steps, Some err)
            | (steps, Inr st') \<Rightarrow>
                yieldThen steps (search graph startNodeId endNodeId endNode mode ign st'))"
    unfolding step
    by (subst expandEdges_filter) (simp only: turn)
next
  assume "mode \<noteq> Car \<or> ignoring options"
  then show "aStarRoute (graph\<lparr>restrictions := rs\<rparr>) startNodeId endNodeId mode options
          = aStarRoute graph startNodeId endNodeId mode options"
    by (intro aStarRoute_cong_graph) (auto simp: turnRestricted_def)
next
  show "aStarRoute (graph\<lparr>restrictions :=
          filter (\<lambda>r. \<not> prefix ''only_'' (rtype r)) (restrictions graph)\<rparr>)
        startNodeId endNodeId mode options
      = aStarRoute graph startNodeId endNodeId mode options"
    by (intro aStarRoute_cong_graph)
       (simp_all add: turnRestricted_def isRestricted_def isRestrictedIn_drop_only)
qed


text \<open>The linear graph with a \<open>no_left_turn\<close> from way 100 via node 2 to way 200 and
  an \<open>only_straight_on\<close> restriction for the same turn.\<close>

definition restrictedLine :: RoutingGraph where
  "restrictedLine =
     lineGraph\<lparr>restrictions :=
       [\<lparr> fromWayId = 100, viaNodeId = 2, toWayId = 200, rtype = ''only_straight_on'' \<rparr>,
        \<lparr> fromWayId = 100, viaNodeId = 2, toWayId = 200, rtype = ''no_left_turn'' \<rparr>]\<rparr>"

text \<open>The linear graph with the same \<open>no_left_turn\<close> recorded via node 3, the target of
  the turn, instead of node 2.\<close>

definition restrictedAtTarget :: RoutingGraph where
  "restrictedAtTarget =
     lineGraph\<lparr>restrictions :=
       [\<lparr> fromWayId = 100, viaNodeId = 3, toWayId = 200, rtype = ''no_left_turn'' \<rparr>]\<rparr>"

text \<open>The state of the car search from 1 to 3 when node 2 is about to be expanded.\<close>

definition atNode2 :: AStarState where
  "atNode2 =
     \<lparr> gScore = [1 \<mapsto> 0, 2 \<mapsto> 12],
       cameFrom = [2 \<mapsto> \<lparr> prevNodeId = 1, cf_edge = makeEdge 1 2 100 False 100,
                            prevWayId = 100 \<rparr>],
       openSet = [(12, 2)],
       closedSet = {1} \<rparr>"

lemma restrictedLine_run:
  "aStarRoute restrictedLine 1 3 Car noOptions =
     Some ([Explore (makeEdge 1 2 100 False 100) 1 2,
            Explore (makeEdge 2 1 100 True 100) 2 1,
            NoRoute],
           None)"
  apply (simp add: aStarRoute_def restrictedLine_def lineGraph_def noOptions_def ignoring_def)
  apply (subst search.simps, simp add: heap_eval loop_eval)
  apply (subst search.simps, simp add: heap_eval loop_eval)
  apply (subst search.simps, simp add: heap_eval loop_eval yieldThen_def)
  done

lemma restrictedAtTarget_run:
  "aStarRoute restrictedAtTarget 1 3 Car noOptions =
     Some ([Explore (makeEdge 1 2 100 False 100) 1 2,
            Explore (makeEdge 2 1 100 True 100) 2 1,
            Explore (makeEdge 2 3 200 False 100) 2 3,
            Done [makeEdge 1 2 100 False 100, makeEdge 2 3 200 False 100] [1, 2, 3] (Some 24)],
           None)"
  apply (simp add: aStarRoute_def restrictedAtTarget_def lineGraph_def noOptions_def
      ignoring_def)
  apply (subst search.simps, simp add: heap_eval loop_eval)
  apply (subst search.simps, simp add: heap_eval loop_eval)
  apply (subst search.simps, simp add: heap_eval loop_eval walkBack.simps yieldThen_def)
  done

lemma atNode2_loop:
  "expandEdges (restrictedLine\<lparr>restrictions := []\<rparr>) Car False (makeNode 3) 2 (Some 12) 100
     [makeEdge 2 1 100 True 100] (atNode2\<lparr>openSet := [], closedSet := {2, 1}\<rparr>)
   = ([Explore (makeEdge 2 1 100 True 100) 2 1],
      Inr (atNode2\<lparr>openSet := [], closedSet := {2, 1}\<rparr>))"
  by (simp add: restrictedLine_def lineGraph_def atNode2_def loop_eval)

theorem C3_turn_restrictions_witness:
  "pop (openSet atNode2) = Some (2, [])
   \<and> 2 \<notin> closedSet atNode2
   \<and> map_of (adjacency restrictedLine) 2
        = Some [makeEdge 2 1 100 True 100, makeEdge 2 3 200 False 100]
   \<and> cameFrom atNode2 2
        = Some \<lparr> prevNodeId = 1, cf_edge = makeEdge 1 2 100 False 100, prevWayId = 100 \<rparr>
   \<and> expandEdges restrictedLine Car False (makeNode 3) 2 (Some 12) 100
        [makeEdge 2 1 100 True 100, makeEdge 2 3 200 False 100]
        (atNode2\<lparr>openSet := [], closedSet := {2, 1}\<rparr>)
      = ([Explore (makeEdge 2 1 100 True 100) 2 1],
         Inr (atNode2\<lparr>openSet := [], closedSet := {2, 1}\<rparr>))
   \<and> search restrictedLine 1 3 (makeNode 3) Car False atNode2
      = Some ([Explore (makeEdge 2 1 100 True 100) 2 1, NoRoute], None)
   \<and> aStarRoute (restrictedLine\<lparr>restrictions := []\<rparr>) 1 3 Bicycle noOptions
        = aStarRoute restrictedLine 1 3 Bicycle noOptions
   \<and> aStarRoute (restrictedLine\<lparr>restrictions :=
          filter (\<lambda>r. \<not> prefix ''only_'' (rtype r)) (restrictions restrictedLine)\<rparr>)
        1 3 Car noOptions
      = Some ([Explore (makeEdge 1 2 100 False 100) 1 2,
               Explore (makeEdge 2 1 100 True 100) 2 1,
               NoRoute],
              None)
   \<and> aStarRoute restrictedAtTarget 1 3 Car noOptions
      = Some ([Explore (makeEdge 1 2 100 False 100) 1 2,
               Explore (makeEdge 2 1 100 True 100) 2 1,
               Explore (makeEdge 2 3 200 False 100) 2 3,
               Done [makeEdge 1 2 100 False 100, makeEdge 2 3 200 False 100] [1, 2, 3]
                 (Some 24)],
              None)"
proof -
  let ?closed = "atNode2\<lparr>openSet := [], closedSet := {2, 1}\<rparr>"
  have p: "pop (openSet atNode2) = Some (2, [])"
    by (simp add: atNode2_def heap_eval)
  have c: "2 \<notin> closedSet atNode2"
    by (simp add: atNode2_def)
  have a: "map_of (adjacency restrictedLine) 2
        = Some [makeEdge 2 1 100 True 100, makeEdge 2 3 200 False 100]"
    by (simp add: restrictedLine_def lineGraph_def)
  have f: "cameFrom atNode2 2
        = Some \<lparr> prevNodeId = 1, cf_edge = makeEdge 1 2 100 False 100, prevWayId = 100 \<rparr>"
    by (simp add: atNode2_def)
  have g: "gScore atNode2 2 = Some 12" and cs: "closedSet atNode2 = {1}"
    by (simp_all add: atNode2_def)
  have r: "restrictions restrictedLine =
       [\<lparr> fromWayId = 100, viaNodeId = 2, toWayId = 200, rtype = ''only_straight_on'' \<rparr>,
        \<lparr> fromWayId = 100, viaNodeId = 2, toWayId = 200, rtype = ''no_left_turn'' \<rparr>]"
    by (simp add: restrictedLine_def)
  note car = C3_turn_restrictions [where graph = restrictedLine and mode = Car and ign = False
      and endNode = "makeNode 3" and currentId = 2 and currentG = "Some 12"
      and currentWayId = 100
      and es = "[makeEdge 2 1 100 True 100, makeEdge 2 3 200 False 100]"
      and st = ?closed and ?st0.0 = atNode2 and c = 2 and rest = "[]" and endNodeId = 3
      and neighbors = "[makeEdge 2 1 100 True 100, makeEdge 2 3 200 False 100]"
      and startNodeId = 1 and options = noOptions and rs = "[]"]
  have loop: "expandEdges restrictedLine Car False (makeNode 3) 2 (Some 12) 100
        [makeEdge 2 1 100 True 100, makeEdge 2 3 200 False 100] ?closed
      = ([Explore (makeEdge 2 1 100 True 100) 2 1], Inr ?closed)"
    using car [THEN conjunct1] by (simp add: r atNode2_loop)
  have e: "search restrictedLine 1 3 (makeNode 3) Car False ?closed = Some ([NoRoute], None)"
    by (rule search_empty) (simp add: heap_eval)
  have s: "search restrictedLine 1 3 (makeNode 3) Car False atNode2
      = Some ([Explore (makeEdge 2 1 100 True 100) 2 1, NoRoute], None)"
    using car [THEN conjunct2, THEN conjunct1] p c a
    by (simp add: f g cs r atNode2_loop e yieldThen_def)
  have b: "aStarRoute (restrictedLine\<lparr>restrictions := []\<rparr>) 1 3 Bicycle noOptions
        = aStarRoute restrictedLine 1 3 Bicycle noOptions"
    using C3_turn_restrictions [where graph = restrictedLine and mode = Bicycle
        and options = noOptions and rs = "[]" and startNodeId = 1 and endNodeId = 3]
    by simp
  have o: "aStarRoute (restrictedLine\<lparr>restrictions :=
          filter (\<lambda>r. \<not> prefix ''only_'' (rtype r)) (restrictions restrictedLine)\<rparr>)
        1 3 Car noOptions
      = Some ([Explore (makeEdge 1 2 100 False 100) 1 2,
               Explore (makeEdge 2 1 100 True 100) 2 1,
               NoRoute],
              None)"
    using car restrictedLine_run by simp
  from p c a f loop s b o restrictedAtTarget_run show ?thesis
    by (intro conjI)
qed


subsection \<open>The barrier tag of the start node\<close>


fun exploresInto :: "int \<Rightarrow> AStarStep \<Rightarrow> bool" where
  "exploresInto n (Explore e f t) = (t = n)"
| "exploresInto n s = False"

definition stepsNotInto :: "int \<Rightarrow> AStarStep list \<Rightarrow> AStarStep list" where
  "stepsNotInto n steps = filter (\<lambda>s. \<not> exploresInto n s) steps"













lemma stepsNotInto_append [simp]:
  "stepsNotInto n (xs @ ys) = stepsNotInto n xs @ stepsNotInto n ys"
  by (simp add: stepsNotInto_def)













section \<open>Map-extract parser (osm/parser.ts)\<close>

subsection \<open>The parsed document\<close>

text \<open>
  \<open>DOMParser\<close> is outside the program; \<open>parseOSM\<close> is modelled from the parsed document
  on. An attribute that the code converts with \<open>Number(...)\<close> is held converted, \<open>None\<close>
  being \<open>NaN\<close>. A \<open>tag\<close> element is the pair of its \<open>k\<close> and \<open>v\<close> attributes, \<open>None\<close>
  being an attribute that is missing. The \<open>id\<close> of a way is taken to be a number.
\<close>

type_synonym OsmTag = "string option \<times> string option"

record OsmNode =
  n_id :: "int option"
  n_lat :: "real option"
  n_lon :: "real option"
  n_tags :: "OsmTag list"

record OsmWay =
  w_id :: int
  w_tags :: "OsmTag list"
  w_nds :: "int option list"

record OsmMember =
  m_role :: "string option"
  m_type :: "string option"
  m_ref :: "int option"

record OsmRelation =
  r_tags :: "OsmTag list"
  r_members :: "OsmMember list"

record OsmDocument =
  doc_nodes :: "OsmNode list"
  doc_ways :: "OsmWay list"
  doc_relations :: "OsmRelation list"

fun getTag :: "OsmTag list \<Rightarrow> string \<Rightarrow> string option" where
  "getTag [] key = None"
| "getTag ((k, v) # tags) key = (if k = Some key then v else getTag tags key)"

text \<open>\<open>parseInt(s, 10)\<close> on ASCII strings: leading white space, a sign, decimal digits.\<close>

definition isSpace :: "char \<Rightarrow> bool" where
  "isSpace c = (of_char c \<in> {9, 10, 11, 12, 13, 32 :: nat})"

definition isDigit :: "char \<Rightarrow> bool" where
  "isDigit c = (48 \<le> (of_char c :: nat) \<and> (of_char c :: nat) \<le> 57)"

definition parseInt10 :: "string \<Rightarrow> int option" where
  "parseInt10 s =
     (let t = dropWhile isSpace s;
          neg = (case t of c # r \<Rightarrow> c = CHR ''-'' | [] \<Rightarrow> False);
          u = (case t of c # r \<Rightarrow> if c = CHR ''-'' \<or> c = CHR ''+'' then r else t | [] \<Rightarrow> []);
          ds = takeWhile isDigit u
      in if ds = [] then None
         else Some ((if neg then - 1 else 1)
                    * int (foldl (\<lambda>a c. 10 * a + (of_char c - 48)) 0 ds)))"

subsection \<open>Nodes\<close>

fun parseNodes :: "OsmNode list \<Rightarrow> (int \<rightharpoonup> GraphNode) \<Rightarrow> (int \<rightharpoonup> GraphNode)" where
  "parseNodes [] allNodes = allNodes"
| "parseNodes (el # els) allNodes =
     (case (n_id el, n_lat el, n_lon el) of
        (Some i, Some la, Some lo) \<Rightarrow>
          parseNodes els
            (allNodes(i \<mapsto> \<lparr> node_id = i, lat = la, lon = lo,
                             barrier = getTag (n_tags el) ''barrier'' \<rparr>))
      | _ \<Rightarrow> parseNodes els allNodes)"

subsection \<open>Ways\<close>

text \<open>The values read from a way before its segments are walked.\<close>

record WayTags =
  wt_wayId :: int
  wt_highway :: string
  wt_maxspeed :: real
  wt_oneway :: bool
  wt_onewayBicycle :: bool
  wt_access :: "string option"
  wt_motorVehicle :: "string option"
  wt_vehicle :: "string option"
  wt_bicycleTag :: "string option"
  wt_footTag :: "string option"

definition readWayTags :: "OsmWay \<Rightarrow> string \<Rightarrow> WayTags" where
  "readWayTags way hw =
     (let onewayTag = getTag (w_tags way) ''oneway'';
          onewayBicycleTag = getTag (w_tags way) ''oneway:bicycle'';
          maxspeedTag = getTag (w_tags way) ''maxspeed''
      in \<lparr> wt_wayId = w_id way,
           wt_highway = hw,
           wt_maxspeed =
             (case maxspeedTag of
                None \<Rightarrow> 0
              | Some m \<Rightarrow>
                  if m = [] then 0
                  else (case parseInt10 m of None \<Rightarrow> 0 | Some n \<Rightarrow> real_of_int n)),
           wt_oneway =
             (onewayTag = Some ''yes'' \<or> onewayTag = Some ''1'' \<or> onewayTag = Some ''true''),
           wt_onewayBicycle = (onewayBicycleTag \<noteq> Some ''no''),
           wt_access = getTag (w_tags way) ''access'',
           wt_motorVehicle = getTag (w_tags way) ''motor_vehicle'',
           wt_vehicle = getTag (w_tags way) ''vehicle'',
           wt_bicycleTag = getTag (w_tags way) ''bicycle'',
           wt_footTag = getTag (w_tags way) ''foot'' \<rparr>)"

definition forwardEdge :: "WayTags \<Rightarrow> int \<Rightarrow> int \<Rightarrow> GraphNode \<Rightarrow> GraphNode \<Rightarrow> GraphEdge" where
  "forwardEdge wt fromId toId fromNode toNode =
     \<lparr> from_id = fromId, to_id = toId, wayId = wt_wayId wt, highway = wt_highway wt,
       maxspeed = wt_maxspeed wt, oneway = wt_oneway wt, onewayBicycle = wt_onewayBicycle wt,
       isReverse = False,
       distance = haversine (lat fromNode) (lon fromNode) (lat toNode) (lon toNode),
       geometry = [(lat fromNode, lon fromNode), (lat toNode, lon toNode)],
       access = wt_access wt, motorVehicle = wt_motorVehicle wt, vehicle = wt_vehicle wt,
       bicycle = wt_bicycleTag wt, foot = wt_footTag wt \<rparr>"

definition reverseEdge :: "WayTags \<Rightarrow> int \<Rightarrow> int \<Rightarrow> GraphNode \<Rightarrow> GraphNode \<Rightarrow> GraphEdge" where
  "reverseEdge wt fromId toId fromNode toNode =
     \<lparr> from_id = toId, to_id = fromId, wayId = wt_wayId wt, highway = wt_highway wt,
       maxspeed = wt_maxspeed wt, oneway = wt_oneway wt, onewayBicycle = wt_onewayBicycle wt,
       isReverse = True,
       distance = haversine (lat fromNode) (lon fromNode) (lat toNode) (lon toNode),
       geometry = [(lat toNode, lon toNode), (lat fromNode, lon fromNode)],
       access = wt_access wt, motorVehicle = wt_motorVehicle wt, vehicle = wt_vehicle wt,
       bicycle = wt_bicycleTag wt, foot = wt_footTag wt \<rparr>"

text \<open>\<open>if (!adjacency.has(k)) adjacency.set(k, []); adjacency.get(k)!.push(e)\<close>\<close>

definition pushEdge ::
  "(int \<times> GraphEdge list) list \<Rightarrow> int \<Rightarrow> GraphEdge \<Rightarrow> (int \<times> GraphEdge list) list" where
  "pushEdge adj k e =
     AList.update k ((case map_of adj k of None \<Rightarrow> [] | Some es \<Rightarrow> es) @ [e]) adj"

text \<open>The loop over the consecutive pairs of node references of one way. The state is
  \<open>adjacency\<close> and \<open>referencedNodes\<close>.\<close>

fun addSegments ::
  "(int \<rightharpoonup> GraphNode) \<Rightarrow> WayTags \<Rightarrow> int option list
   \<Rightarrow> (int \<times> GraphEdge list) list \<times> int set \<Rightarrow> (int \<times> GraphEdge list) list \<times> int set" where
  "addSegments allNodes wt (fromRef # toRef # refs) (adj, referenced) =
     (case (fromRef, toRef) of
        (Some fromId, Some toId) \<Rightarrow>
          (case (allNodes fromId, allNodes toId) of
             (Some fromNode, Some toNode) \<Rightarrow>
               addSegments allNodes wt (toRef # refs)
                 (pushEdge (pushEdge adj fromId (forwardEdge wt fromId toId fromNode toNode))
                    toId (reverseEdge wt fromId toId fromNode toNode),
                  insert toId (insert fromId referenced))
           | _ \<Rightarrow> addSegments allNodes wt (toRef # refs) (adj, referenced))
      | _ \<Rightarrow> addSegments allNodes wt (toRef # refs) (adj, referenced))"
| "addSegments allNodes wt refs (adj, referenced) = (adj, referenced)"

fun parseWays ::
  "(int \<rightharpoonup> GraphNode) \<Rightarrow> OsmWay list
   \<Rightarrow> (int \<times> GraphEdge list) list \<times> int set \<Rightarrow> (int \<times> GraphEdge list) list \<times> int set" where
  "parseWays allNodes [] acc = acc"
| "parseWays allNodes (way # ways) acc =
     (case getTag (w_tags way) ''highway'' of
        None \<Rightarrow> parseWays allNodes ways acc
      | Some hw \<Rightarrow>
          if hw = [] then parseWays allNodes ways acc
          else parseWays allNodes ways
                 (addSegments allNodes (readWayTags way hw) (w_nds way) acc))"

subsection \<open>Turn restrictions\<close>

text \<open>The three member ids start as 0; a \<open>ref\<close> that is not a number makes them \<open>NaN\<close>
  (\<open>None\<close>), which is as false as 0 in the final test.\<close>

fun readMembers ::
  "OsmMember list \<Rightarrow> int option \<times> int option \<times> int option
   \<Rightarrow> int option \<times> int option \<times> int option" where
  "readMembers [] acc = acc"
| "readMembers (m # ms) (fromWay, viaNode, toWay) =
     readMembers ms
       (if m_role m = Some ''from'' \<and> m_type m = Some ''way'' then m_ref m else fromWay,
        if m_role m = Some ''via'' \<and> m_type m = Some ''node'' then m_ref m else viaNode,
        if m_role m = Some ''to'' \<and> m_type m = Some ''way'' then m_ref m else toWay)"

definition truthy :: "int option \<Rightarrow> bool" where
  "truthy x = (case x of None \<Rightarrow> False | Some n \<Rightarrow> n \<noteq> 0)"

fun parseRelations :: "OsmRelation list \<Rightarrow> TurnRestriction list" where
  "parseRelations [] = []"
| "parseRelations (rel # rels) =
     (if getTag (r_tags rel) ''type'' \<noteq> Some ''restriction'' then parseRelations rels
      else
        (case getTag (r_tags rel) ''restriction'' of
           None \<Rightarrow> parseRelations rels
         | Some restrictionType \<Rightarrow>
             if restrictionType = [] then parseRelations rels
             else
               (case readMembers (r_members rel) (Some 0, Some 0, Some 0) of
                  (fromWay, viaNode, toWay) \<Rightarrow>
                    if truthy fromWay \<and> truthy viaNode \<and> truthy toWay
                    then \<lparr> fromWayId = the fromWay, viaNodeId = the viaNode,
                           toWayId = the toWay, rtype = restrictionType \<rparr>
                         # parseRelations rels
                    else parseRelations rels)))"

subsection \<open>The graph\<close>

definition parseOSM :: "OsmDocument \<Rightarrow> RoutingGraph" where
  "parseOSM doc =
     (let allNodes = parseNodes (doc_nodes doc) Map.empty;
          (adj, referencedNodes) = parseWays allNodes (doc_ways doc) ([], {});
          rs = parseRelations (doc_relations doc)
      in \<lparr> nodes = allNodes |` referencedNodes, adjacency = adj, restrictions = rs \<rparr>)"

subsection \<open>The way segments and their two edges\<close>

text \<open>
  The segments of a way, as the specification describes them: the consecutive pairs of
  node references whose two endpoints are in the node map.
\<close>

fun consecutivePairs :: "'a list \<Rightarrow> ('a \<times> 'a) list" where
  "consecutivePairs (a # b # rest) = (a, b) # consecutivePairs (b # rest)"
| "consecutivePairs rest = []"

definition segmentOf ::
  "(int \<rightharpoonup> GraphNode) \<Rightarrow> int option \<times> int option \<Rightarrow> (int \<times> int \<times> GraphNode \<times> GraphNode) option" where
  "segmentOf allNodes p =
     (case p of
        (Some fromId, Some toId) \<Rightarrow>
          (case (allNodes fromId, allNodes toId) of
             (Some fromNode, Some toNode) \<Rightarrow> Some (fromId, toId, fromNode, toNode)
           | _ \<Rightarrow> None)
      | _ \<Rightarrow> None)"

definition waySegments ::
  "(int \<rightharpoonup> GraphNode) \<Rightarrow> int option list \<Rightarrow> (int \<times> int \<times> GraphNode \<times> GraphNode) list" where
  "waySegments allNodes refs = List.map_filter (segmentOf allNodes) (consecutivePairs refs)"

definition routableWays :: "OsmWay list \<Rightarrow> (WayTags \<times> int option list) list" where
  "routableWays ways =
     List.map_filter
       (\<lambda>way. case getTag (w_tags way) ''highway'' of
                 None \<Rightarrow> None
               | Some hw \<Rightarrow> if hw = [] then None else Some (readWayTags way hw, w_nds way))
       ways"

text \<open>All segments of the document, each with the tags of its way, in document order.\<close>

definition documentSegments ::
  "OsmDocument \<Rightarrow> (WayTags \<times> int \<times> int \<times> GraphNode \<times> GraphNode) list" where
  "documentSegments doc =
     concat (map (\<lambda>(wt, refs). map (Pair wt) (waySegments (parseNodes (doc_nodes doc) Map.empty) refs))
               (routableWays (doc_ways doc)))"

text \<open>The two directed edges of a segment.\<close>

definition segmentEdges :: "WayTags \<times> int \<times> int \<times> GraphNode \<times> GraphNode \<Rightarrow> GraphEdge list" where
  "segmentEdges s =
     (case s of (wt, fromId, toId, fromNode, toNode) \<Rightarrow>
        [forwardEdge wt fromId toId fromNode toNode, reverseEdge wt fromId toId fromNode toNode])"

text \<open>The edges of an adjacency map entry: those edges of a sequence that leave \<open>k\<close>.\<close>

definition leaving :: "int \<Rightarrow> GraphEdge list \<Rightarrow> GraphEdge list option" where
  "leaving k es = (let out = filter (\<lambda>e. from_id e = k) es in if out = [] then None else Some out)"

lemma map_of_pushEdge:
  "map_of (pushEdge adj k e) k' =
     (if k' = k then Some ((case map_of adj k of None \<Rightarrow> [] | Some es \<Rightarrow> es) @ [e])
      else map_of adj k')"
  by (simp add: pushEdge_def update_conv')

lemma distinct_pushEdge: "distinct (map fst adj) \<Longrightarrow> distinct (map fst (pushEdge adj k e))"
  by (simp add: pushEdge_def distinct_update)

lemma leaving_snoc:
  "leaving k' (es @ [e]) =
     (if k' = from_id e then Some ((case leaving k' es of None \<Rightarrow> [] | Some out \<Rightarrow> out) @ [e])
      else leaving k' es)"
  by (auto simp: leaving_def Let_def)

lemma pushEdge_leaving:
  assumes "\<forall>k. map_of adj k = leaving k es" and "from_id e = k"
  shows "map_of (pushEdge adj k e) k' = leaving k' (es @ [e])"
  using assms by (simp add: map_of_pushEdge leaving_snoc)

text \<open>What \<open>addSegments\<close> adds for one way.\<close>

definition addSegment ::
  "WayTags \<Rightarrow> (int \<times> int \<times> GraphNode \<times> GraphNode) option
   \<Rightarrow> (int \<times> GraphEdge list) list \<times> int set \<Rightarrow> (int \<times> GraphEdge list) list \<times> int set" where
  "addSegment wt seg acc =
     (case seg of
        None \<Rightarrow> acc
      | Some (fromId, toId, fromNode, toNode) \<Rightarrow>
          (pushEdge (pushEdge (fst acc) fromId (forwardEdge wt fromId toId fromNode toNode))
             toId (reverseEdge wt fromId toId fromNode toNode),
           insert toId (insert fromId (snd acc))))"

lemma addSegments_step:
  "addSegments allNodes wt (fromRef # toRef # refs) acc =
     addSegments allNodes wt (toRef # refs)
       (addSegment wt (segmentOf allNodes (fromRef, toRef)) acc)"
  by (cases acc) (simp add: segmentOf_def addSegment_def split: option.splits)

lemma addSegments_short:
  "addSegments allNodes wt [] acc = acc" "addSegments allNodes wt [r] acc = acc"
  by (cases acc, simp)+

lemma waySegments_step:
  "waySegments allNodes (fromRef # toRef # refs) =
     (case segmentOf allNodes (fromRef, toRef) of None \<Rightarrow> [] | Some seg \<Rightarrow> [seg])
     @ waySegments allNodes (toRef # refs)"
  by (simp add: waySegments_def map_filter_simps split: option.splits)

text \<open>The state of the way loops, described by the edges emitted so far.\<close>

definition groups :: "(int \<times> GraphEdge list) list \<times> int set \<Rightarrow> GraphEdge list \<Rightarrow> bool" where
  "groups acc es =
     ((\<forall>k. map_of (fst acc) k = leaving k es) \<and> distinct (map fst (fst acc))
      \<and> snd acc = (\<Union>e \<in> set es. {from_id e, to_id e}))"

lemma groups_addSegment:
  assumes "groups acc es"
  shows "groups (addSegment wt seg acc)
           (es @ concat (map (\<lambda>s. segmentEdges (wt, s)) (case seg of None \<Rightarrow> [] | Some s \<Rightarrow> [s])))"
proof (cases seg)
  case None
  with assms show ?thesis by (simp add: addSegment_def)
next
  case (Some s)
  obtain fromId toId fromNode toNode where s: "s = (fromId, toId, fromNode, toNode)"
    by (cases s) auto
  let ?f = "forwardEdge wt fromId toId fromNode toNode"
  let ?r = "reverseEdge wt fromId toId fromNode toNode"
  have a: "\<forall>k. map_of (fst acc) k = leaving k es"
    using assms by (simp add: groups_def)
  have m1: "\<forall>k. map_of (pushEdge (fst acc) fromId ?f) k = leaving k (es @ [?f])"
    using pushEdge_leaving [OF a, of ?f fromId] by (simp add: forwardEdge_def)
  have m2: "\<forall>k. map_of (pushEdge (pushEdge (fst acc) fromId ?f) toId ?r) k
      = leaving k ((es @ [?f]) @ [?r])"
    using pushEdge_leaving [OF m1, of ?r toId] by (simp add: reverseEdge_def)
  have d: "distinct (map fst (pushEdge (pushEdge (fst acc) fromId ?f) toId ?r))"
    using assms by (simp add: groups_def distinct_pushEdge)
  have ends: "from_id ?f = fromId" "to_id ?f = toId" "from_id ?r = toId" "to_id ?r = fromId"
    by (simp_all add: forwardEdge_def reverseEdge_def)
  have r: "insert toId (insert fromId (snd acc))
      = (\<Union>e \<in> set (es @ [?f, ?r]). {from_id e, to_id e})"
    using assms ends by (auto simp: groups_def)
  show ?thesis
    using m2 d r by (simp add: Some s addSegment_def segmentEdges_def groups_def)
qed

lemma groups_addSegments:
  "groups acc es \<Longrightarrow>
   groups (addSegments allNodes wt refs acc)
     (es @ concat (map (\<lambda>s. segmentEdges (wt, s)) (waySegments allNodes refs)))"
proof (induction refs arbitrary: acc es rule: consecutivePairs.induct)
  case (1 fromRef toRef refs)
  from "1.IH" [OF groups_addSegment [OF "1.prems"]]
  show ?case
    by (simp add: addSegments_step waySegments_step split: option.splits)
qed (simp_all add: addSegments_short waySegments_def)

lemma routableWays_Cons:
  "routableWays (way # ways) =
     (case getTag (w_tags way) ''highway'' of
        None \<Rightarrow> []
      | Some hw \<Rightarrow> if hw = [] then [] else [(readWayTags way hw, w_nds way)])
     @ routableWays ways"
  by (simp add: routableWays_def map_filter_simps split: option.splits)

lemma groups_parseWays:
  "groups acc es \<Longrightarrow>
   groups (parseWays allNodes ways acc)
     (es @ concat (map segmentEdges
        (concat (map (\<lambda>(wt, refs). map (Pair wt) (waySegments allNodes refs))
                   (routableWays ways)))))"
proof (induction ways arbitrary: acc es)
  case Nil
  then show ?case by (simp add: routableWays_def map_filter_simps)
next
  case (Cons way ways)
  show ?case
  proof (cases "getTag (w_tags way) ''highway''")
    case None
    with Cons show ?thesis by (simp add: routableWays_Cons)
  next
    case (Some hw)
    show ?thesis
    proof (cases "hw = []")
      case True
      with Some Cons show ?thesis by (simp add: routableWays_Cons)
    next
      case False
      from Cons.IH [OF groups_addSegments [OF Cons.prems, of allNodes "readWayTags way hw" "w_nds way"]]
      show ?thesis
        using Some False by (simp add: routableWays_Cons map_concat comp_def)
    qed
  qed
qed


definition emittedEdges :: "OsmDocument \<Rightarrow> GraphEdge list" where
  "emittedEdges doc = concat (map segmentEdges (documentSegments doc))"

lemma groups_initial: "groups ([], {}) []"
  by (simp add: groups_def leaving_def)

lemma parseOSM_groups:
  "groups (parseWays (parseNodes (doc_nodes doc) Map.empty) (doc_ways doc) ([], {}))
     (emittedEdges doc)"
  using groups_parseWays [OF groups_initial, of "parseNodes (doc_nodes doc) Map.empty" "doc_ways doc"]
  by (simp add: emittedEdges_def documentSegments_def)

lemma adjacency_parseOSM:
  "adjacency (parseOSM doc)
     = fst (parseWays (parseNodes (doc_nodes doc) Map.empty) (doc_ways doc) ([], {}))"
  by (simp add: parseOSM_def Let_def split: prod.splits)

lemma nodes_parseOSM:
  "nodes (parseOSM doc)
     = parseNodes (doc_nodes doc) Map.empty
         |` snd (parseWays (parseNodes (doc_nodes doc) Map.empty) (doc_ways doc) ([], {}))"
  by (simp add: parseOSM_def Let_def split: prod.splits)

lemma segment_fields:
  "segmentEdges (wt, fromId, toId, fromNode, toNode) =
     [forwardEdge wt fromId toId fromNode toNode,
      (forwardEdge wt fromId toId fromNode toNode)
        \<lparr> from_id := toId, to_id := fromId, isReverse := True,
          geometry := rev (geometry (forwardEdge wt fromId toId fromNode toNode)) \<rparr>]"
  by (simp add: segmentEdges_def forwardEdge_def reverseEdge_def)

text \<open>
  C6. The adjacency map returned by \<open>parseOSM\<close> holds, under each node id, exactly the
  edges leaving that node among the edges of the document's segments, in document
  order, and each segment (a pair of consecutive node references of a way with a
  \<open>highway\<close> tag, both in the node map) contributes exactly two edges, whatever the
  way's \<open>oneway\<close> value: the forward edge, with \<open>isReverse = false\<close>, and the same edge
  with its endpoints swapped, \<open>isReverse = true\<close> and its geometry reversed. Both carry
  the way's id, highway, maxspeed, oneway, onewayBicycle, the distance and the override
  tags.
\<close>

theorem C6_two_edges_per_segment:
  "distinct (map fst (adjacency (parseOSM doc)))
   \<and> (\<forall>k. map_of (adjacency (parseOSM doc)) k = leaving k (emittedEdges doc))
   \<and> emittedEdges doc = concat (map segmentEdges (documentSegments doc))
   \<and> (\<forall>wt fromId toId fromNode toNode.
        \<exists>fwd. segmentEdges (wt, fromId, toId, fromNode, toNode) =
                 [fwd, fwd\<lparr> from_id := toId, to_id := fromId, isReverse := True,
                            geometry := rev (geometry fwd) \<rparr>]
          \<and> from_id fwd = fromId \<and> to_id fwd = toId \<and> \<not> isReverse fwd
          \<and> wayId fwd = wt_wayId wt \<and> highway fwd = wt_highway wt
          \<and> maxspeed fwd = wt_maxspeed wt \<and> oneway fwd = wt_oneway wt
          \<and> onewayBicycle fwd = wt_onewayBicycle wt
          \<and> distance fwd = haversine (lat fromNode) (lon fromNode) (lat toNode) (lon toNode)
          \<and> geometry fwd = [(lat fromNode, lon fromNode), (lat toNode, lon toNode)]
          \<and> access fwd = wt_access wt \<and> motorVehicle fwd = wt_motorVehicle wt
          \<and> vehicle fwd = wt_vehicle wt \<and> bicycle fwd = wt_bicycleTag wt
          \<and> foot fwd = wt_footTag wt)"
proof (intro conjI allI)
  show "distinct (map fst (adjacency (parseOSM doc)))"
    using parseOSM_groups [of doc] by (simp add: groups_def adjacency_parseOSM)
  show "map_of (adjacency (parseOSM doc)) k = leaving k (emittedEdges doc)" for k
    using parseOSM_groups [of doc] by (simp add: groups_def adjacency_parseOSM)
  show "emittedEdges doc = concat (map segmentEdges (documentSegments doc))"
    by (simp add: emittedEdges_def)
  show "\<exists>fwd. segmentEdges (wt, fromId, toId, fromNode, toNode) =
                 [fwd, fwd\<lparr> from_id := toId, to_id := fromId, isReverse := True,
                            geometry := rev (geometry fwd) \<rparr>]
          \<and> from_id fwd = fromId \<and> to_id fwd = toId \<and> \<not> isReverse fwd
          \<and> wayId fwd = wt_wayId wt \<and> highway fwd = wt_highway wt
          \<and> maxspeed fwd = wt_maxspeed wt \<and> oneway fwd = wt_oneway wt
          \<and> onewayBicycle fwd = wt_onewayBicycle wt
          \<and> distance fwd = haversine (lat fromNode) (lon fromNode) (lat toNode) (lon toNode)
          \<and> geometry fwd = [(lat fromNode, lon fromNode), (lat toNode, lon toNode)]
          \<and> access fwd = wt_access wt \<and> motorVehicle fwd = wt_motorVehicle wt
          \<and> vehicle fwd = wt_vehicle wt \<and> bicycle fwd = wt_bicycleTag wt
          \<and> foot fwd = wt_footTag wt" for wt fromId toId fromNode toNode
    by (intro exI [of _ "forwardEdge wt fromId toId fromNode toNode"])
       (simp add: segment_fields, simp add: forwardEdge_def)
qed

subsection \<open>The nodes kept are the endpoints of the edges\<close>

lemma groups_graphEdges:
  assumes "groups acc es"
  shows "(\<Union>(k, out) \<in> set (fst acc). set out) = set es"
proof (intro equalityI subsetI)
  fix e
  assume "e \<in> (\<Union>(k, out) \<in> set (fst acc). set out)"
  then obtain k out where ko: "(k, out) \<in> set (fst acc)" "e \<in> set out" by auto
  have "distinct (map fst (fst acc))"
    using assms by (simp add: groups_def)
  from map_of_is_SomeI [OF this ko(1)] have "leaving k es = Some out"
    using assms by (simp add: groups_def)
  with ko(2) show "e \<in> set es"
    by (auto simp: leaving_def Let_def split: if_splits)
next
  fix e
  assume e: "e \<in> set es"
  then have "filter (\<lambda>x. from_id x = from_id e) es \<noteq> []"
    by (auto simp: filter_empty_conv)
  then have "leaving (from_id e) es = Some (filter (\<lambda>x. from_id x = from_id e) es)"
    by (simp add: leaving_def)
  then have "map_of (fst acc) (from_id e) = Some (filter (\<lambda>x. from_id x = from_id e) es)"
    using assms by (simp add: groups_def)
  from map_of_SomeD [OF this]
  have "(from_id e, filter (\<lambda>x. from_id x = from_id e) es) \<in> set (fst acc)" .
  moreover have "e \<in> set (filter (\<lambda>x. from_id x = from_id e) es)"
    using e by simp
  ultimately show "e \<in> (\<Union>(k, out) \<in> set (fst acc). set out)"
    by blast
qed

lemma waySegments_known:
  "(a, b, na, nb) \<in> set (waySegments allNodes refs) \<Longrightarrow> a \<in> dom allNodes \<and> b \<in> dom allNodes"
  by (auto simp: waySegments_def List.map_filter_def segmentOf_def split: option.splits)

lemma emittedEdges_known:
  "e \<in> set (emittedEdges doc) \<Longrightarrow>
   from_id e \<in> dom (parseNodes (doc_nodes doc) Map.empty)
   \<and> to_id e \<in> dom (parseNodes (doc_nodes doc) Map.empty)"
  by (auto simp: emittedEdges_def documentSegments_def segmentEdges_def forwardEdge_def
      reverseEdge_def dest!: waySegments_known)

text \<open>
  C7. In the graph returned by \<open>parseOSM\<close> the keys of \<open>nodes\<close> are exactly the node ids
  that are the \<open>from\<close> or the \<open>to\<close> endpoint of an edge of the adjacency map.
\<close>

theorem C7_nodes_are_edge_endpoints:
  "dom (nodes (parseOSM doc)) = (\<Union>e \<in> graphEdges (parseOSM doc). {from_id e, to_id e})"
proof -
  let ?acc = "parseWays (parseNodes (doc_nodes doc) Map.empty) (doc_ways doc) ([], {})"
  have g: "groups ?acc (emittedEdges doc)" by (rule parseOSM_groups)
  have edges: "graphEdges (parseOSM doc) = set (emittedEdges doc)"
    using groups_graphEdges [OF g] by (simp add: graphEdges_def adjacency_parseOSM)
  have ref: "snd ?acc = (\<Union>e \<in> set (emittedEdges doc). {from_id e, to_id e})"
    using g by (simp add: groups_def)
  have "snd ?acc \<subseteq> dom (parseNodes (doc_nodes doc) Map.empty)"
    unfolding ref using emittedEdges_known [of _ doc] by auto
  then have "dom (nodes (parseOSM doc)) = snd ?acc"
    by (auto simp: nodes_parseOSM)
  with ref edges show ?thesis by simp
qed


subsection \<open>A small document\<close>

text \<open>
  Nodes 1, 2, 3 and 9, a oneway residential way 100 over the references 1, 2, 7, 3 (no
  node 7 exists), a way 200 without a \<open>highway\<close> tag over 3 and 9, and a
  \<open>no_left_turn\<close> relation.
\<close>

definition sampleDoc :: OsmDocument where
  "sampleDoc =
     \<lparr> doc_nodes =
         [\<lparr> n_id = Some 1, n_lat = Some 0, n_lon = Some 0, n_tags = [] \<rparr>,
          \<lparr> n_id = Some 2, n_lat = Some 0, n_lon = Some 0,
            n_tags = [(Some ''barrier'', Some ''bollard'')] \<rparr>,
          \<lparr> n_id = Some 3, n_lat = Some 0, n_lon = Some 0, n_tags = [] \<rparr>,
          \<lparr> n_id = Some 9, n_lat = None, n_lon = Some 0, n_tags = [] \<rparr>],
       doc_ways =
         [\<lparr> w_id = 100,
            w_tags = [(Some ''highway'', Some ''residential''), (Some ''oneway'', Some ''yes''),
                      (Some ''maxspeed'', Some ''50'')],
            w_nds = [Some 1, Some 2, Some 7, Some 3] \<rparr>,
          \<lparr> w_id = 200, w_tags = [(Some ''name'', Some ''x'')], w_nds = [Some 3, Some 9] \<rparr>],
       doc_relations =
         [\<lparr> r_tags = [(Some ''type'', Some ''restriction''),
                      (Some ''restriction'', Some ''no_left_turn'')],
            r_members =
              [\<lparr> m_role = Some ''from'', m_type = Some ''way'', m_ref = Some 100 \<rparr>,
               \<lparr> m_role = Some ''via'', m_type = Some ''node'', m_ref = Some 2 \<rparr>,
               \<lparr> m_role = Some ''to'', m_type = Some ''way'', m_ref = Some 200 \<rparr>] \<rparr>] \<rparr>"

definition sampleForward :: GraphEdge where
  "sampleForward =
     \<lparr> from_id = 1, to_id = 2, wayId = 100, highway = ''residential'', maxspeed = 50,
       oneway = True, onewayBicycle = True, isReverse = False, distance = 0,
       geometry = [(0, 0), (0, 0)], access = None, motorVehicle = None, vehicle = None,
       bicycle = None, foot = None \<rparr>"

lemma parseInt10_50: "parseInt10 ''50'' = Some 50"
  by (simp add: parseInt10_def isSpace_def isDigit_def)

lemma sampleDoc_nodes:
  "parseNodes (doc_nodes sampleDoc) Map.empty =
     [1 \<mapsto> \<lparr> node_id = 1, lat = 0, lon = 0, barrier = None \<rparr>,
      2 \<mapsto> \<lparr> node_id = 2, lat = 0, lon = 0, barrier = Some ''bollard'' \<rparr>,
      3 \<mapsto> \<lparr> node_id = 3, lat = 0, lon = 0, barrier = None \<rparr>]"
  by (simp add: sampleDoc_def)

lemma sampleDoc_emitted:
  "emittedEdges sampleDoc =
     [sampleForward,
      sampleForward\<lparr> from_id := 2, to_id := 1, isReverse := True,
                     geometry := rev (geometry sampleForward) \<rparr>]"
  unfolding emittedEdges_def documentSegments_def sampleDoc_nodes
  by (simp add: sampleDoc_def routableWays_def waySegments_def segmentOf_def segmentEdges_def
      readWayTags_def parseInt10_50 forwardEdge_def reverseEdge_def sampleForward_def)

lemma sampleDoc_parse:
  "parseOSM sampleDoc =
     \<lparr> nodes = [1 \<mapsto> \<lparr> node_id = 1, lat = 0, lon = 0, barrier = None \<rparr>,
                2 \<mapsto> \<lparr> node_id = 2, lat = 0, lon = 0, barrier = Some ''bollard'' \<rparr>],
       adjacency =
         [(1, [sampleForward]),
          (2, [sampleForward\<lparr> from_id := 2, to_id := 1, isReverse := True,
                              geometry := [(0, 0), (0, 0)] \<rparr>])],
       restrictions =
         [\<lparr> fromWayId = 100, viaNodeId = 2, toWayId = 200, rtype = ''no_left_turn'' \<rparr>] \<rparr>"
  unfolding parseOSM_def sampleDoc_nodes
  by (auto simp: sampleDoc_def readWayTags_def parseInt10_50 forwardEdge_def reverseEdge_def
      sampleForward_def pushEdge_def truthy_def restrict_map_def fun_eq_iff)

theorem C6_two_edges_per_segment_witness:
  "map_of (adjacency (parseOSM sampleDoc)) 1 = Some [sampleForward]
   \<and> map_of (adjacency (parseOSM sampleDoc)) 2
       = Some [sampleForward\<lparr> from_id := 2, to_id := 1, isReverse := True,
                               geometry := rev (geometry sampleForward) \<rparr>]
   \<and> map_of (adjacency (parseOSM sampleDoc)) 3 = None
   \<and> oneway sampleForward"
  using C6_two_edges_per_segment [of sampleDoc]
  by (simp add: sampleDoc_emitted leaving_def sampleForward_def)

theorem C7_nodes_are_edge_endpoints_witness:
  "dom (nodes (parseOSM sampleDoc)) = {1, 2}
   \<and> 3 \<in> dom (parseNodes (doc_nodes sampleDoc) Map.empty)"
proof -
  have "graphEdges (parseOSM sampleDoc) =
      {sampleForward,
       sampleForward\<lparr> from_id := 2, to_id := 1, isReverse := True, geometry := [(0, 0), (0, 0)] \<rparr>}"
    by (auto simp: sampleDoc_parse graphEdges_def)
  with C7_nodes_are_edge_endpoints [of sampleDoc] show ?thesis
    by (auto simp: sampleDoc_nodes sampleForward_def)
qed

section \<open>Geometric matcher (routing/map-matching.ts)\<close>

subsection \<open>Projection and snapping\<close>

record Projection =
  proj_x :: real
  proj_y :: real
  proj_t :: real

definition projectPointOnSegment ::
  "real \<Rightarrow> real \<Rightarrow> real \<Rightarrow> real \<Rightarrow> real \<Rightarrow> real \<Rightarrow> Projection" where
  "projectPointOnSegment px py ax ay bx b_y =
     (let dx = bx - ax;
          dy = b_y - ay;
          lenSq = dx * dx + dy * dy
      in if lenSq = 0 then \<lparr> proj_x = ax, proj_y = ay, proj_t = 0 \<rparr>
         else
           (let t = ((px - ax) * dx + (py - ay) * dy) / lenSq;
                t = max 0 (min 1 t)
            in \<lparr> proj_x = ax + t * dx, proj_y = ay + t * dy, proj_t = t \<rparr>))"

text \<open>
  The numbers of \<open>snapToRoad\<close> are doubles. Coordinates are kept as reals, but a distance
  that \<open>haversine\<close> returns need not be a real: for two nearly antipodal points the sum
  \<open>a\<close> is rounded to a value above 1, \<open>Math.sqrt(1 - a)\<close> is \<open>NaN\<close> and so is the
  distance. A comparison with \<open>NaN\<close> is false.
\<close>

datatype number = NaN | NegInfinity | Finite real | Infinity

fun lessThan :: "number \<Rightarrow> number \<Rightarrow> bool" where
  "lessThan (Finite a) (Finite b) = (a < b)"
| "lessThan (Finite a) Infinity = True"
| "lessThan NegInfinity (Finite b) = True"
| "lessThan NegInfinity Infinity = True"
| "lessThan a b = False"

fun lessEq :: "number \<Rightarrow> number \<Rightarrow> bool" where
  "lessEq NaN b = False"
| "lessEq a NaN = False"
| "lessEq NegInfinity b = True"
| "lessEq a Infinity = True"
| "lessEq (Finite a) (Finite b) = (a \<le> b)"
| "lessEq a b = False"

text \<open>
  What the double arithmetic rounds to is left open: \<open>snapToRoad\<close> takes
  \<open>projectPointOnSegment\<close> and \<open>haversine\<close> as the arithmetic computes them, so that what
  is proved of it holds for every rounding. \<open>exact\<close> is the arithmetic that does not
  round.
\<close>

record Arithmetic =
  projectPoint :: "real \<Rightarrow> real \<Rightarrow> real \<Rightarrow> real \<Rightarrow> real \<Rightarrow> real \<Rightarrow> Projection"
  distanceOf :: "real \<Rightarrow> real \<Rightarrow> real \<Rightarrow> real \<Rightarrow> number"

definition exact :: Arithmetic where
  "exact =
     \<lparr> projectPoint = projectPointOnSegment,
       distanceOf = (\<lambda>lat1 lon1 lat2 lon2. Finite (haversine lat1 lon1 lat2 lon2)) \<rparr>"

record SnapResult =
  snap_nodeId :: int
  snap_lat :: real
  snap_lon :: real
  snap_edge :: GraphEdge
  distanceToSnap :: number

text \<open>The variables of \<open>snapToRoad\<close>. The key \<open>wayId-from-to\<close> of an edge is the triple of
  the three numbers.\<close>

record SnapState =
  bestDist :: number
  bestLat :: real
  bestLon :: real
  bestEdge :: "GraphEdge option"
  seen :: "(int \<times> int \<times> int) set"

text \<open>The loop over the consecutive geometry points of one edge.\<close>

fun scanGeometry ::
  "Arithmetic \<Rightarrow> real \<Rightarrow> real \<Rightarrow> GraphEdge \<Rightarrow> (real \<times> real) list \<Rightarrow> SnapState \<Rightarrow> SnapState" where
  "scanGeometry fp qlat qlon e (p # q # geo) st =
     (let proj = projectPoint fp qlat qlon (fst p) (snd p) (fst q) (snd q);
          dist = distanceOf fp qlat qlon (proj_x proj) (proj_y proj)
      in scanGeometry fp qlat qlon e (q # geo)
           (if lessThan dist (bestDist st)
            then st\<lparr> bestDist := dist, bestLat := proj_x proj, bestLon := proj_y proj,
                     bestEdge := Some e \<rparr>
            else st))"
| "scanGeometry fp qlat qlon e geo st = st"

text \<open>The loop over the edges of one adjacency entry.\<close>

fun scanEdges ::
  "Arithmetic \<Rightarrow> real \<Rightarrow> real \<Rightarrow> RoutingMode \<Rightarrow> GraphEdge list \<Rightarrow> SnapState \<Rightarrow> SnapState" where
  "scanEdges fp qlat qlon mode [] st = st"
| "scanEdges fp qlat qlon mode (e # es) st =
     (let key = (wayId e, from_id e, to_id e) in
      if key \<in> seen st then scanEdges fp qlat qlon mode es st
      else
        (let st1 = st\<lparr> seen := insert key (seen st) \<rparr> in
         if \<not> isEdgeAccessible e mode then scanEdges fp qlat qlon mode es st1
         else scanEdges fp qlat qlon mode es (scanGeometry fp qlat qlon e (geometry e) st1)))"

text \<open>The loop over \<open>graph.adjacency.values()\<close>.\<close>

fun scanAdjacency ::
  "Arithmetic \<Rightarrow> real \<Rightarrow> real \<Rightarrow> RoutingMode \<Rightarrow> (int \<times> GraphEdge list) list \<Rightarrow> SnapState
   \<Rightarrow> SnapState" where
  "scanAdjacency fp qlat qlon mode [] st = st"
| "scanAdjacency fp qlat qlon mode ((k, edges) # rest) st =
     scanAdjacency fp qlat qlon mode rest (scanEdges fp qlat qlon mode edges st)"

text \<open>\<open>snapToRoad\<close> returns \<open>Inr None\<close> for \<open>null\<close>, and \<open>Inl TypeError\<close> when an endpoint
  of the best edge has no entry in \<open>graph.nodes\<close>.\<close>

definition snapToRoad ::
  "Arithmetic \<Rightarrow> real \<Rightarrow> real \<Rightarrow> RoutingGraph \<Rightarrow> RoutingMode \<Rightarrow> error + SnapResult option" where
  "snapToRoad fp qlat qlon graph mode =
     (let st = scanAdjacency fp qlat qlon mode (adjacency graph)
                 \<lparr> bestDist = Infinity, bestLat = 0, bestLon = 0, bestEdge = None,
                   seen = {} \<rparr>
      in case bestEdge st of
           None \<Rightarrow> Inr None
         | Some be \<Rightarrow>
             (case nodes graph (from_id be) of
                None \<Rightarrow> Inl TypeError
              | Some fromNode \<Rightarrow>
                  (case nodes graph (to_id be) of
                     None \<Rightarrow> Inl TypeError
                   | Some toNode \<Rightarrow>
                       (let distToFrom = distanceOf fp (bestLat st) (bestLon st)
                                           (lat fromNode) (lon fromNode);
                            distToTo = distanceOf fp (bestLat st) (bestLon st)
                                         (lat toNode) (lon toNode);
                            nodeId = (if lessEq distToFrom distToTo then from_id be
                                      else to_id be)
                        in Inr (Some \<lparr> snap_nodeId = nodeId, snap_lat = bestLat st,
                                       snap_lon = bestLon st, snap_edge = be,
                                       distanceToSnap = bestDist st \<rparr>)))))"

subsection \<open>Snapping finds an accessible edge when there is one\<close>

definition edgeKey :: "GraphEdge \<Rightarrow> int \<times> int \<times> int" where
  "edgeKey e = (wayId e, from_id e, to_id e)"

text \<open>
  The state after the edges \<open>P\<close> have been looked at: their keys are the seen keys, the
  best edge is one of them and accessible, and there is none only if none of them is
  accessible.
\<close>

definition scanned :: "RoutingMode \<Rightarrow> SnapState \<Rightarrow> GraphEdge set \<Rightarrow> bool" where
  "scanned mode st P =
     (seen st = edgeKey ` P
      \<and> (bestEdge st = None \<longrightarrow> bestDist st = Infinity)
      \<and> (\<forall>be. bestEdge st = Some be \<longrightarrow> be \<in> P \<and> isEdgeAccessible be mode))"

definition noneMissed :: "RoutingMode \<Rightarrow> SnapState \<Rightarrow> GraphEdge set \<Rightarrow> bool" where
  "noneMissed mode st P = (bestEdge st = None \<longrightarrow> (\<forall>e \<in> P. \<not> isEdgeAccessible e mode))"

text \<open>The body of the geometry loop.\<close>

definition segmentDistance ::
  "Arithmetic \<Rightarrow> real \<Rightarrow> real \<Rightarrow> real \<times> real \<Rightarrow> real \<times> real \<Rightarrow> number" where
  "segmentDistance fp qlat qlon p q =
     (let proj = projectPoint fp qlat qlon (fst p) (snd p) (fst q) (snd q)
      in distanceOf fp qlat qlon (proj_x proj) (proj_y proj))"

definition scanPoint ::
  "Arithmetic \<Rightarrow> real \<Rightarrow> real \<Rightarrow> GraphEdge \<Rightarrow> real \<times> real \<Rightarrow> real \<times> real \<Rightarrow> SnapState
   \<Rightarrow> SnapState" where
  "scanPoint fp qlat qlon e p q st =
     (let proj = projectPoint fp qlat qlon (fst p) (snd p) (fst q) (snd q)
      in if lessThan (segmentDistance fp qlat qlon p q) (bestDist st)
         then st\<lparr> bestDist := segmentDistance fp qlat qlon p q, bestLat := proj_x proj,
                  bestLon := proj_y proj, bestEdge := Some e \<rparr>
         else st)"

lemma scanGeometry_step:
  "scanGeometry fp qlat qlon e (p # q # geo) st
     = scanGeometry fp qlat qlon e (q # geo) (scanPoint fp qlat qlon e p q st)"
  by (simp add: scanPoint_def segmentDistance_def Let_def)

lemma scanGeometry_preserves:
  assumes "Q st" and "\<And>st p q. Q st \<Longrightarrow> Q (scanPoint fp qlat qlon e p q st)"
  shows "Q (scanGeometry fp qlat qlon e geo st)"
  using assms(1)
proof (induction geo arbitrary: st rule: induct_list012)
  case (3 p q geo)
  from "3.IH"(2) [OF assms(2) [OF "3.prems"]] show ?case
    by (simp only: scanGeometry_step)
qed simp_all

lemma scanGeometry_seen [simp]: "seen (scanGeometry fp qlat qlon e geo st) = seen st"
  by (rule scanGeometry_preserves [where Q = "\<lambda>x. seen x = seen st"])
     (simp_all add: scanPoint_def Let_def)

lemma scanGeometry_bestEdge:
  "bestEdge (scanGeometry fp qlat qlon e geo st) = bestEdge st
   \<or> bestEdge (scanGeometry fp qlat qlon e geo st) = Some e"
  by (rule scanGeometry_preserves [where Q = "\<lambda>x. bestEdge x = bestEdge st \<or> bestEdge x = Some e"])
     (auto simp: scanPoint_def Let_def)

lemma scanGeometry_keeps:
  "bestEdge st = None \<longrightarrow> bestDist st = Infinity \<Longrightarrow>
   bestEdge (scanGeometry fp qlat qlon e geo st) = None \<longrightarrow>
     bestDist (scanGeometry fp qlat qlon e geo st) = Infinity"
  by (rule scanGeometry_preserves [where Q = "\<lambda>x. bestEdge x = None \<longrightarrow> bestDist x = Infinity"])
     (auto simp: scanPoint_def Let_def)

lemma scanGeometry_found:
  "bestEdge st \<noteq> None \<Longrightarrow> bestEdge (scanGeometry fp qlat qlon e geo st) \<noteq> None"
  by (rule scanGeometry_preserves [where Q = "\<lambda>x. bestEdge x \<noteq> None"])
     (auto simp: scanPoint_def Let_def)

text \<open>
  A geometry is within reach of the point when the distance to one of its segments
  compares less than \<open>Infinity\<close>: there is a segment, and its distance is not \<open>NaN\<close>.
\<close>

fun withinReach :: "Arithmetic \<Rightarrow> real \<Rightarrow> real \<Rightarrow> (real \<times> real) list \<Rightarrow> bool" where
  "withinReach fp qlat qlon (p # q # geo) =
     (lessThan (segmentDistance fp qlat qlon p q) Infinity
      \<or> withinReach fp qlat qlon (q # geo))"
| "withinReach fp qlat qlon geo = False"

lemma withinReach_exact: "withinReach exact qlat qlon geo \<longleftrightarrow> 2 \<le> length geo"
  by (induction geo rule: induct_list012) (simp_all add: segmentDistance_def exact_def Let_def)

lemma scanPoint_finds:
  "bestEdge st = None \<longrightarrow> bestDist st = Infinity \<Longrightarrow>
   lessThan (segmentDistance fp qlat qlon p q) Infinity \<Longrightarrow>
   bestEdge (scanPoint fp qlat qlon e p q st) \<noteq> None"
  by (cases "bestEdge st") (simp_all add: scanPoint_def Let_def)

lemma scanPoint_keeps:
  "bestEdge st = None \<longrightarrow> bestDist st = Infinity \<Longrightarrow>
   bestEdge (scanPoint fp qlat qlon e p q st) = None \<longrightarrow>
     bestDist (scanPoint fp qlat qlon e p q st) = Infinity"
  by (simp add: scanPoint_def Let_def)

lemma scanGeometry_finds:
  assumes "withinReach fp qlat qlon geo" and "bestEdge st = None \<longrightarrow> bestDist st = Infinity"
  shows "bestEdge (scanGeometry fp qlat qlon e geo st) \<noteq> None"
  using assms
proof (induction geo arbitrary: st rule: induct_list012)
  case (3 p q geo)
  show ?case
  proof (cases "lessThan (segmentDistance fp qlat qlon p q) Infinity")
    case True
    have "bestEdge (scanPoint fp qlat qlon e p q st) \<noteq> None"
      using "3.prems"(2) True by (rule scanPoint_finds)
    then have "bestEdge (scanGeometry fp qlat qlon e (q # geo) (scanPoint fp qlat qlon e p q st))
        \<noteq> None"
      by (rule scanGeometry_found)
    then show ?thesis
      unfolding scanGeometry_step .
  next
    case False
    with "3.prems"(1) have w: "withinReach fp qlat qlon (q # geo)" by simp
    have k: "bestEdge (scanPoint fp qlat qlon e p q st) = None \<longrightarrow>
        bestDist (scanPoint fp qlat qlon e p q st) = Infinity"
      using "3.prems"(2) by (rule scanPoint_keeps)
    from "3.IH"(2) [OF w k]
    show ?thesis
      unfolding scanGeometry_step .
  qed
qed simp_all

lemma scanned_edge:
  assumes "scanned mode st P"
  shows "scanned mode
           (scanEdges fp qlat qlon mode [e] st) (insert e P)"
proof (cases "edgeKey e \<in> seen st")
  case True
  with assms show ?thesis
    by (auto simp: scanned_def edgeKey_def Let_def)
next
  case False
  let ?st1 = "st\<lparr> seen := insert (edgeKey e) (seen st) \<rparr>"
  show ?thesis
  proof (cases "isEdgeAccessible e mode")
    case acc: False
    with False assms show ?thesis
      by (auto simp: scanned_def edgeKey_def Let_def)
  next
    case acc: True
    have k: "bestEdge ?st1 = None \<longrightarrow> bestDist ?st1 = Infinity"
      using assms by (simp add: scanned_def)
    from scanGeometry_bestEdge [of fp qlat qlon e "geometry e" ?st1]
      scanGeometry_keeps [OF k, of fp qlat qlon e "geometry e"]
    show ?thesis
      using False acc assms
      by (auto simp: scanned_def edgeKey_def Let_def)
  qed
qed


lemma scanEdges_Cons:
  "scanEdges fp qlat qlon mode (e # es) st = scanEdges fp qlat qlon mode es (scanEdges fp qlat qlon mode [e] st)"
  by (simp add: Let_def)

lemma scanned_edges:
  "scanned mode st P \<Longrightarrow> scanned mode (scanEdges fp qlat qlon mode es st) (P \<union> set es)"
proof (induction es arbitrary: st P)
  case Nil
  then show ?case by simp
next
  case (Cons e es)
  from Cons.IH [OF scanned_edge [OF Cons.prems, of fp qlat qlon e]]
  show ?case by (subst scanEdges_Cons) simp
qed

lemma scanned_adjacency:
  "scanned mode st P \<Longrightarrow>
   scanned mode (scanAdjacency fp qlat qlon mode adj st) (P \<union> (\<Union>(k, es) \<in> set adj. set es))"
proof (induction adj arbitrary: st P)
  case Nil
  then show ?case by simp
next
  case (Cons entry adj)
  obtain k es where entry: "entry = (k, es)" by (cases entry)
  from Cons.IH [OF scanned_edges [OF Cons.prems, of fp qlat qlon es]]
  show ?case by (simp add: entry Un_assoc)
qed

text \<open>Edges that snapping from the point can use: an accessible edge is within reach,
  and equal keys are only between edges that are equally accessible.\<close>

definition snappable ::
  "Arithmetic \<Rightarrow> real \<Rightarrow> real \<Rightarrow> RoutingMode \<Rightarrow> GraphEdge set \<Rightarrow> bool" where
  "snappable fp qlat qlon mode E =
     ((\<forall>e \<in> E. isEdgeAccessible e mode \<longrightarrow> withinReach fp qlat qlon (geometry e))
      \<and> (\<forall>e \<in> E. \<forall>e' \<in> E. edgeKey e = edgeKey e' \<longrightarrow>
            isEdgeAccessible e mode = isEdgeAccessible e' mode))"

lemma snappable_subset: "snappable fp qlat qlon mode E \<Longrightarrow> F \<subseteq> E \<Longrightarrow> snappable fp qlat qlon mode F"
  unfolding snappable_def by blast

lemma noneMissed_edge:
  assumes sc: "scanned mode st P" and nm: "noneMissed mode st P"
    and ok: "snappable fp qlat qlon mode (insert e P)"
  shows "noneMissed mode (scanEdges fp qlat qlon mode [e] st) (insert e P)"
proof (cases "edgeKey e \<in> seen st")
  case True
  then obtain e' where e': "e' \<in> P" "edgeKey e' = edgeKey e"
    using sc by (auto simp: scanned_def)
  then have "isEdgeAccessible e mode = isEdgeAccessible e' mode"
    using ok unfolding snappable_def by (metis insertCI)
  with True e' nm show ?thesis
    by (auto simp: noneMissed_def edgeKey_def Let_def)
next
  case False
  show ?thesis
  proof (cases "isEdgeAccessible e mode")
    case acc: False
    with False nm show ?thesis
      by (auto simp: noneMissed_def edgeKey_def Let_def)
  next
    case acc: True
    let ?st1 = "st\<lparr> seen := insert (edgeKey e) (seen st) \<rparr>"
    have k: "bestEdge ?st1 = None \<longrightarrow> bestDist ?st1 = Infinity"
      using sc by (simp add: scanned_def)
    have "withinReach fp qlat qlon (geometry e)"
      using ok acc by (simp add: snappable_def)
    from scanGeometry_finds [OF this k, of e]
    show ?thesis
      using False acc by (simp add: noneMissed_def edgeKey_def Let_def)
  qed
qed

lemma noneMissed_edges:
  "scanned mode st P \<Longrightarrow> noneMissed mode st P \<Longrightarrow> snappable fp qlat qlon mode (P \<union> set es) \<Longrightarrow>
   noneMissed mode (scanEdges fp qlat qlon mode es st) (P \<union> set es)"
proof (induction es arbitrary: st P)
  case Nil
  then show ?case by simp
next
  case (Cons e es)
  have ok1: "snappable fp qlat qlon mode (insert e P)"
    using Cons.prems(3) by (rule snappable_subset) auto
  have ok2: "snappable fp qlat qlon mode (insert e P \<union> set es)"
    using Cons.prems(3) by (rule snappable_subset) auto
  from Cons.IH [OF scanned_edge [OF Cons.prems(1)] noneMissed_edge [OF Cons.prems(1,2) ok1] ok2]
  show ?case by (subst scanEdges_Cons) simp
qed

lemma noneMissed_adjacency:
  "scanned mode st P \<Longrightarrow> noneMissed mode st P \<Longrightarrow>
   snappable fp qlat qlon mode (P \<union> (\<Union>(k, es) \<in> set adj. set es)) \<Longrightarrow>
   noneMissed mode (scanAdjacency fp qlat qlon mode adj st) (P \<union> (\<Union>(k, es) \<in> set adj. set es))"
proof (induction adj arbitrary: st P)
  case Nil
  then show ?case by simp
next
  case (Cons entry adj)
  obtain k es where entry: "entry = (k, es)" by (cases entry)
  have ok1: "snappable fp qlat qlon mode (P \<union> set es)"
    using Cons.prems(3) by (rule snappable_subset) (auto simp: entry)
  have ok2: "snappable fp qlat qlon mode ((P \<union> set es) \<union> (\<Union>(k, es) \<in> set adj. set es))"
    using Cons.prems(3) by (rule snappable_subset) (auto simp: entry)
  from Cons.IH [OF scanned_edges [OF Cons.prems(1)] noneMissed_edges [OF Cons.prems(1,2) ok1] ok2]
  show ?case by (simp add: entry Un_assoc)
qed

lemma scanned_initial:
  "scanned mode \<lparr> bestDist = Infinity, bestLat = 0, bestLon = 0, bestEdge = None, seen = {} \<rparr> {}"
  "noneMissed mode \<lparr> bestDist = Infinity, bestLat = 0, bestLon = 0, bestEdge = None, seen = {} \<rparr> {}"
  by (simp_all add: scanned_def noneMissed_def)

lemma snapToRoad_null:
  "snapToRoad fp qlat qlon graph mode = Inr None \<longleftrightarrow>
     bestEdge (scanAdjacency fp qlat qlon mode (adjacency graph)
       \<lparr> bestDist = Infinity, bestLat = 0, bestLon = 0, bestEdge = None, seen = {} \<rparr>) = None"
  by (simp add: snapToRoad_def Let_def split: option.splits)

lemma snapToRoad_result:
  "snapToRoad fp qlat qlon graph mode = Inr (Some r) \<Longrightarrow>
     bestEdge (scanAdjacency fp qlat qlon mode (adjacency graph)
       \<lparr> bestDist = Infinity, bestLat = 0, bestLon = 0, bestEdge = None, seen = {} \<rparr>)
       = Some (snap_edge r)"
  by (auto simp: snapToRoad_def Let_def split: option.splits)

text \<open>
  C8. Whenever \<open>snapToRoad\<close> returns a result, the returned edge is an edge of the graph
  that is accessible to the mode, and when no edge of the graph is accessible to the
  mode it returns \<open>null\<close>; both hold however the distances are rounded. For a point and
  a graph in which every accessible edge is within reach of the point (it has at least
  two geometry points, and the distance to one of its segments is a number below
  \<open>Infinity\<close>, not \<open>NaN\<close>) and edges
  with the same key \<open>wayId-from-to\<close> are equally accessible, \<open>snapToRoad\<close> returns \<open>null\<close>
  if and only if no edge of the graph is accessible to the mode.
\<close>

theorem C8_snap_accessible:
  "(snapToRoad fp qlat qlon graph mode = Inr (Some r) \<longrightarrow>
      snap_edge r \<in> graphEdges graph \<and> isEdgeAccessible (snap_edge r) mode)
   \<and> (\<not> (\<exists>e \<in> graphEdges graph. isEdgeAccessible e mode) \<longrightarrow>
        snapToRoad fp qlat qlon graph mode = Inr None)
   \<and> (snappable fp qlat qlon mode (graphEdges graph) \<longrightarrow>
        (snapToRoad fp qlat qlon graph mode = Inr None)
          = (\<not> (\<exists>e \<in> graphEdges graph. isEdgeAccessible e mode)))"
proof -
  let ?init = "\<lparr> bestDist = Infinity, bestLat = 0, bestLon = 0, bestEdge = None, seen = {} \<rparr>"
  let ?st = "scanAdjacency fp qlat qlon mode (adjacency graph) ?init"
  have sc: "scanned mode ?st (graphEdges graph)"
    using scanned_adjacency [OF scanned_initial(1), of mode fp qlat qlon "adjacency graph"]
    by (simp add: graphEdges_def)
  have 1: "snap_edge r \<in> graphEdges graph \<and> isEdgeAccessible (snap_edge r) mode"
    if "snapToRoad fp qlat qlon graph mode = Inr (Some r)"
    using snapToRoad_result [OF that] sc by (simp add: scanned_def)
  have 2: "snapToRoad fp qlat qlon graph mode = Inr None"
    if "\<not> (\<exists>e \<in> graphEdges graph. isEdgeAccessible e mode)"
    unfolding snapToRoad_null using sc that
    by (cases "bestEdge ?st") (auto simp: scanned_def)
  have 3: "(snapToRoad fp qlat qlon graph mode = Inr None)
          = (\<not> (\<exists>e \<in> graphEdges graph. isEdgeAccessible e mode))"
    if ok: "snappable fp qlat qlon mode (graphEdges graph)"
  proof -
    have nm: "noneMissed mode ?st (graphEdges graph)"
      using noneMissed_adjacency [OF scanned_initial, of fp qlat qlon mode "adjacency graph"] ok
      by (simp add: graphEdges_def)
    show ?thesis
      unfolding snapToRoad_null using sc nm
      by (cases "bestEdge ?st") (auto simp: scanned_def noneMissed_def)
  qed
  from 1 2 3 show ?thesis by blast
qed


text \<open>A footway from 3 to 4 and a residential road from 1 to 2.\<close>

definition footway :: GraphEdge where
  "footway = (makeEdge 3 4 200 False 100)\<lparr> highway := ''footway'' \<rparr>"

definition footwayAndRoad :: RoutingGraph where
  "footwayAndRoad =
     \<lparr> nodes = [1 \<mapsto> makeNode 1, 2 \<mapsto> makeNode 2, 3 \<mapsto> makeNode 3, 4 \<mapsto> makeNode 4],
       adjacency = [(3, [footway]), (1, [makeEdge 1 2 100 False 100])],
       restrictions = [] \<rparr>"

text \<open>The footway alone.\<close>

definition footwayOnly :: RoutingGraph where
  "footwayOnly =
     \<lparr> nodes = [3 \<mapsto> makeNode 3, 4 \<mapsto> makeNode 4],
       adjacency = [(3, [footway])],
       restrictions = [] \<rparr>"

text \<open>A residential road whose geometry has no points.\<close>

definition emptyGeometryGraph :: RoutingGraph where
  "emptyGeometryGraph =
     \<lparr> nodes = [1 \<mapsto> makeNode 1, 2 \<mapsto> makeNode 2],
       adjacency = [(1, [(makeEdge 1 2 100 False 100)\<lparr> geometry := [] \<rparr>])],
       restrictions = [] \<rparr>"

text \<open>A footway and a residential road with the same way id and endpoints.\<close>

definition sameKeyGraph :: RoutingGraph where
  "sameKeyGraph =
     \<lparr> nodes = [1 \<mapsto> makeNode 1, 2 \<mapsto> makeNode 2],
       adjacency = [(1, [(makeEdge 1 2 100 False 100)\<lparr> highway := ''footway'' \<rparr>,
                         makeEdge 1 2 100 False 100])],
       restrictions = [] \<rparr>"

lemma footway_not_for_cars:
  "\<not> isEdgeAccessible ((makeEdge f t w r d)\<lparr> highway := ''footway'' \<rparr>) Car"
  by (simp add: isEdgeAccessible_def makeEdge_def ROAD_ACCESS_def modeRow_def)

lemma exact_origin:
  "projectPoint exact 0 0 0 0 1 1 = \<lparr> proj_x = 0, proj_y = 0, proj_t = 0 \<rparr>"
  "distanceOf exact a b a b = Finite 0"
  by (simp_all add: exact_def projectPointOnSegment_def Let_def)

lemma footwayAndRoad_scan:
  "scanAdjacency exact 0 0 Car (adjacency footwayAndRoad)
     \<lparr> bestDist = Infinity, bestLat = 0, bestLon = 0, bestEdge = None, seen = {} \<rparr>
   = \<lparr> bestDist = Finite 0, bestLat = 0, bestLon = 0,
       bestEdge = Some (makeEdge 1 2 100 False 100), seen = {(100, 1, 2), (200, 3, 4)} \<rparr>"
proof -
  have g: "geometry (makeEdge 1 2 100 False 100) = [(0, 0), (1, 1)]"
    by (simp add: makeEdge_def)
  show ?thesis
    by (simp add: footwayAndRoad_def footway_def footway_not_for_cars Let_def g exact_origin)
qed

lemma footwayAndRoad_snap:
  "snapToRoad exact 0 0 footwayAndRoad Car =
     Inr (Some \<lparr> snap_nodeId = 1, snap_lat = 0, snap_lon = 0,
                 snap_edge = makeEdge 1 2 100 False 100, distanceToSnap = Finite 0 \<rparr>)"
  unfolding snapToRoad_def footwayAndRoad_scan
  by (simp add: footwayAndRoad_def makeNode_def Let_def exact_origin)

theorem C8_snap_accessible_witness:
  "snappable exact 0 0 Car (graphEdges footwayAndRoad)
   \<and> snapToRoad exact 0 0 footwayAndRoad Car \<noteq> Inr None
   \<and> isEdgeAccessible (makeEdge 1 2 100 False 100) Car
   \<and> makeEdge 1 2 100 False 100 \<in> graphEdges footwayAndRoad
   \<and> graphEdges footwayOnly = {footway}
   \<and> \<not> isEdgeAccessible footway Car
   \<and> snapToRoad exact 0 0 footwayOnly Car = Inr None"
proof -
  have ok: "snappable exact 0 0 Car (graphEdges footwayAndRoad)"
    by (simp add: snappable_def graphEdges_def footwayAndRoad_def footway_def edgeKey_def
        withinReach_exact)
       (simp add: makeEdge_def)
  have only: "graphEdges footwayOnly = {footway}"
    by (simp add: graphEdges_def footwayOnly_def)
  have no: "\<not> isEdgeAccessible footway Car"
    by (simp add: footway_def footway_not_for_cars)
  from C8_snap_accessible [of exact 0 0 footwayAndRoad Car
      "\<lparr> snap_nodeId = 1, snap_lat = 0, snap_lon = 0,
         snap_edge = makeEdge 1 2 100 False 100, distanceToSnap = Finite 0 \<rparr>"]
    footwayAndRoad_snap ok
  have 1: "snapToRoad exact 0 0 footwayAndRoad Car \<noteq> Inr None
     \<and> isEdgeAccessible (makeEdge 1 2 100 False 100) Car
     \<and> makeEdge 1 2 100 False 100 \<in> graphEdges footwayAndRoad"
    by simp
  from C8_snap_accessible [of exact 0 0 footwayOnly Car] only no
  have 2: "snapToRoad exact 0 0 footwayOnly Car = Inr None"
    by simp
  from ok 1 only no 2 show ?thesis by (intro conjI) simp_all
qed

text \<open>
  An accessible edge without two geometry points is never chosen, and an accessible
  edge is skipped when an inaccessible edge with the same key was seen before it: in
  both graphs \<open>snapToRoad\<close> returns \<open>null\<close> although an edge is accessible to cars.
\<close>

theorem C8_null_with_accessible_edge_counterexample:
  "snapToRoad exact 0 0 emptyGeometryGraph Car = Inr None
   \<and> (makeEdge 1 2 100 False 100)\<lparr> geometry := [] \<rparr> \<in> graphEdges emptyGeometryGraph
   \<and> isEdgeAccessible ((makeEdge 1 2 100 False 100)\<lparr> geometry := [] \<rparr>) Car
   \<and> snapToRoad exact 0 0 sameKeyGraph Car = Inr None
   \<and> makeEdge 1 2 100 False 100 \<in> graphEdges sameKeyGraph
   \<and> isEdgeAccessible (makeEdge 1 2 100 False 100) Car"
proof -
  have a: "isEdgeAccessible ((makeEdge 1 2 100 False 100)\<lparr> geometry := [] \<rparr>) Car"
    by (simp add: isEdgeAccessible_def makeEdge_def ROAD_ACCESS_def modeRow_def)
  have 1: "snapToRoad exact 0 0 emptyGeometryGraph Car = Inr None"
    using a by (simp add: snapToRoad_def emptyGeometryGraph_def Let_def)
  have 2: "snapToRoad exact 0 0 sameKeyGraph Car = Inr None"
    by (simp add: snapToRoad_def sameKeyGraph_def Let_def footway_not_for_cars)
  show ?thesis
    using a 1 2 by (simp add: graphEdges_def emptyGeometryGraph_def sameKeyGraph_def)
qed

text \<open>
  A segment whose distance is \<open>NaN\<close> is not taken either: under an arithmetic that
  returns \<open>NaN\<close> for the distance, \<open>snapToRoad\<close> returns \<open>null\<close> on the graph of the road
  and the footway, whose road is accessible to cars and has two geometry points.
\<close>

definition undefinedDistance :: Arithmetic where
  "undefinedDistance = exact\<lparr> distanceOf := (\<lambda>lat1 lon1 lat2 lon2. NaN) \<rparr>"

lemma snapToRoad_undefinedDistance:
  "snapToRoad undefinedDistance 0 0 footwayAndRoad Car = Inr None"
  by (simp add: snapToRoad_def footwayAndRoad_def footway_def footway_not_for_cars Let_def
      makeEdge_def undefinedDistance_def)


subsection \<open>Objects in a store\<close>

text \<open>
  \<open>trimRouteToSnapPoints\<close> copies edge objects and arrays and assigns to fields, so it
  is modelled over a store of objects. A reference is an index into the store; a new
  object is appended. An edge object holds the reference to its geometry array, the
  array holds references to its coordinate pairs, and a pair \<open>[number, number]\<close> is an
  object of its own. A computation returns its result, or the \<open>TypeError\<close> it throws,
  together with the store it leaves.
\<close>

type_synonym addr = nat

datatype jsObject =
    EdgeObject "addr GraphEdgeOf"
  | ArrayObject "addr list"
  | PairObject real real

type_synonym store = "jsObject list"

type_synonym 'a js = "store \<Rightarrow> (error + 'a) \<times> store"

definition ret :: "'a \<Rightarrow> 'a js" where
  "ret x h = (Inr x, h)"

definition throw :: "error \<Rightarrow> 'a js" where
  "throw e h = (Inl e, h)"

definition bind :: "'a js \<Rightarrow> ('a \<Rightarrow> 'b js) \<Rightarrow> 'b js" where
  "bind m f h = (case m h of (Inl e, h') \<Rightarrow> (Inl e, h') | (Inr x, h') \<Rightarrow> f x h')"

definition alloc :: "jsObject \<Rightarrow> addr js" where
  "alloc obj h = (Inr (length h), h @ [obj])"

definition readEdge :: "addr \<Rightarrow> (addr GraphEdgeOf) js" where
  "readEdge a h =
     (if a < length h
      then (case h ! a of EdgeObject e \<Rightarrow> (Inr e, h) | _ \<Rightarrow> (Inl TypeError, h))
      else (Inl TypeError, h))"

definition readArray :: "addr \<Rightarrow> (addr list) js" where
  "readArray a h =
     (if a < length h
      then (case h ! a of ArrayObject refs \<Rightarrow> (Inr refs, h) | _ \<Rightarrow> (Inl TypeError, h))
      else (Inl TypeError, h))"

definition readPair :: "addr \<Rightarrow> (real \<times> real) js" where
  "readPair a h =
     (if a < length h
      then (case h ! a of PairObject x y \<Rightarrow> (Inr (x, y), h) | _ \<Rightarrow> (Inl TypeError, h))
      else (Inl TypeError, h))"

text \<open>\<open>array.push(r)\<close> and \<open>edge.geometry = g\<close>: the two assignments of the module.\<close>

definition arrayPush :: "addr \<Rightarrow> addr \<Rightarrow> unit js" where
  "arrayPush a r h =
     (if a < length h
      then (case h ! a of
              ArrayObject refs \<Rightarrow> (Inr (), h[a := ArrayObject (refs @ [r])])
            | _ \<Rightarrow> (Inl TypeError, h))
      else (Inl TypeError, h))"

definition setGeometry :: "addr \<Rightarrow> addr \<Rightarrow> unit js" where
  "setGeometry a g h =
     (if a < length h
      then (case h ! a of
              EdgeObject e \<Rightarrow> (Inr (), h[a := EdgeObject (e\<lparr> geometry := g \<rparr>)])
            | _ \<Rightarrow> (Inl TypeError, h))
      else (Inl TypeError, h))"

fun readPairs :: "addr list \<Rightarrow> ((real \<times> real) list) js" where
  "readPairs [] = ret []"
| "readPairs (r # refs) =
     bind (readPair r) (\<lambda>p. bind (readPairs refs) (\<lambda>ps. ret (p # ps)))"

fun pushEach :: "addr \<Rightarrow> addr list \<Rightarrow> unit js" where
  "pushEach a [] = ret ()"
| "pushEach a (r # refs) = bind (arrayPush a r) (\<lambda>u. pushEach a refs)"

subsection \<open>Trimming\<close>

record SnapSegment =
  segmentIndex :: nat
  projLat :: real
  projLon :: real

text \<open>\<open>dist < bestDist\<close> for a best distance that is \<open>None\<close> for \<open>Infinity\<close>.\<close>

definition closer :: "real \<Rightarrow> real option \<Rightarrow> bool" where
  "closer d best = (case best of None \<Rightarrow> True | Some b \<Rightarrow> d < b)"

text \<open>The loop of \<open>findSnapSegment\<close> over the points of the geometry, from index \<open>i\<close>; the
  state is \<open>bestDist\<close> (\<open>None\<close> for \<open>Infinity\<close>) and the best segment so far.\<close>

fun findLoop ::
  "real \<Rightarrow> real \<Rightarrow> nat \<Rightarrow> (real \<times> real) list \<Rightarrow> real option \<times> SnapSegment
   \<Rightarrow> real option \<times> SnapSegment" where
  "findLoop snapLat snapLon i (p # q # geo) (best, seg) =
     (let proj = projectPointOnSegment snapLat snapLon (fst p) (snd p) (fst q) (snd q);
          d = haversine snapLat snapLon (proj_x proj) (proj_y proj)
      in findLoop snapLat snapLon (Suc i) (q # geo)
           (if closer d best
            then (Some d, \<lparr> segmentIndex = i, projLat = proj_x proj, projLon = proj_y proj \<rparr>)
            else (best, seg)))"
| "findLoop snapLat snapLon i geo acc = acc"

text \<open>\<open>findSnapSegment\<close> reads \<open>geometry[0][0]\<close> first, which throws for an empty array.\<close>

definition findSnapSegment :: "real \<Rightarrow> real \<Rightarrow> addr \<Rightarrow> SnapSegment js" where
  "findSnapSegment snapLat snapLon geometryRef =
     bind (readArray geometryRef) (\<lambda>refs.
     bind (readPairs refs) (\<lambda>pts.
       case pts of
         [] \<Rightarrow> throw TypeError
       | p # rest \<Rightarrow>
           ret (snd (findLoop snapLat snapLon 0 pts
                  (None, \<lparr> segmentIndex = 0, projLat = fst p, projLon = snd p \<rparr>)))))"

definition trimGeometryFromStart :: "addr \<Rightarrow> real \<Rightarrow> real \<Rightarrow> addr js" where
  "trimGeometryFromStart geometryRef snapLat snapLon =
     bind (findSnapSegment snapLat snapLon geometryRef) (\<lambda>seg.
     bind (readArray geometryRef) (\<lambda>refs.
     bind (alloc (PairObject (projLat seg) (projLon seg))) (\<lambda>snapPoint.
     bind (alloc (ArrayObject [snapPoint])) (\<lambda>result.
     bind (pushEach result (drop (segmentIndex seg + 1) refs)) (\<lambda>u.
     ret result)))))"

definition trimGeometryToEnd :: "addr \<Rightarrow> real \<Rightarrow> real \<Rightarrow> addr js" where
  "trimGeometryToEnd geometryRef snapLat snapLon =
     bind (findSnapSegment snapLat snapLon geometryRef) (\<lambda>seg.
     bind (readArray geometryRef) (\<lambda>refs.
     bind (alloc (ArrayObject [])) (\<lambda>result.
     bind (pushEach result (take (segmentIndex seg + 1) refs)) (\<lambda>u.
     bind (alloc (PairObject (projLat seg) (projLon seg))) (\<lambda>snapPoint.
     bind (arrayPush result snapPoint) (\<lambda>u.
     ret result))))))"

text \<open>\<open>path.map(e => ({ ...e, geometry: [...e.geometry] }))\<close>\<close>

fun copyEdges :: "addr list \<Rightarrow> (addr list) js" where
  "copyEdges [] = ret []"
| "copyEdges (a # path) =
     bind (readEdge a) (\<lambda>e.
     bind (readArray (geometry e)) (\<lambda>refs.
     bind (alloc (ArrayObject refs)) (\<lambda>g.
     bind (alloc (EdgeObject (e\<lparr> geometry := g \<rparr>))) (\<lambda>copy.
     bind (copyEdges path) (\<lambda>copies.
     ret (copy # copies))))))"

text \<open>The distance from the start of its segment to the projected point, as
  \<open>originFirst\<close> reads it.\<close>

definition alongSegment :: "addr \<Rightarrow> SnapSegment \<Rightarrow> real js" where
  "alongSegment geometryRef seg =
     bind (readArray geometryRef) (\<lambda>refs.
       if segmentIndex seg < length refs
       then bind (readPair (refs ! segmentIndex seg)) (\<lambda>p.
              ret (haversine (fst p) (snd p) (projLat seg) (projLon seg)))
       else throw TypeError)"

definition trimSingle :: "addr \<Rightarrow> SnapResult \<Rightarrow> SnapResult \<Rightarrow> unit js" where
  "trimSingle edgeRef originSnap destinationSnap =
     bind (readEdge edgeRef) (\<lambda>e.
     let geo = geometry e in
     bind (findSnapSegment (snap_lat originSnap) (snap_lon originSnap) geo) (\<lambda>originSeg.
     bind (findSnapSegment (snap_lat destinationSnap) (snap_lon destinationSnap) geo) (\<lambda>destSeg.
     bind (if segmentIndex originSeg < segmentIndex destSeg then ret True
           else if segmentIndex originSeg = segmentIndex destSeg
           then bind (alongSegment geo originSeg) (\<lambda>dOrigin.
                bind (alongSegment geo destSeg) (\<lambda>dDest. ret (dOrigin \<le> dDest)))
           else ret False) (\<lambda>originFirst.
     if originFirst then
       bind (trimGeometryFromStart geo (snap_lat originSnap) (snap_lon originSnap)) (\<lambda>trimmed.
       bind (trimGeometryToEnd trimmed (snap_lat destinationSnap) (snap_lon destinationSnap))
         (\<lambda>g. setGeometry edgeRef g))
     else
       bind (trimGeometryFromStart geo (snap_lat destinationSnap) (snap_lon destinationSnap))
         (\<lambda>trimmed.
       bind (trimGeometryToEnd trimmed (snap_lat originSnap) (snap_lon originSnap))
         (\<lambda>g. setGeometry edgeRef g))))))"

definition trimFirst :: "addr \<Rightarrow> SnapResult \<Rightarrow> unit js" where
  "trimFirst edgeRef originSnap =
     bind (readEdge edgeRef) (\<lambda>e.
     let firstGeo = geometry e; firstNodeId = from_id e in
     if snap_nodeId originSnap = firstNodeId
     then bind (trimGeometryFromStart firstGeo (snap_lat originSnap) (snap_lon originSnap))
            (\<lambda>g. setGeometry edgeRef g)
     else bind (trimGeometryToEnd firstGeo (snap_lat originSnap) (snap_lon originSnap))
            (\<lambda>g. setGeometry edgeRef g))"

definition trimLast :: "addr \<Rightarrow> SnapResult \<Rightarrow> unit js" where
  "trimLast edgeRef destinationSnap =
     bind (readEdge edgeRef) (\<lambda>e.
     let lastGeo = geometry e; lastToNodeId = to_id e in
     if snap_nodeId destinationSnap = lastToNodeId
     then bind (trimGeometryToEnd lastGeo (snap_lat destinationSnap) (snap_lon destinationSnap))
            (\<lambda>g. setGeometry edgeRef g)
     else bind (trimGeometryFromStart lastGeo (snap_lat destinationSnap) (snap_lon destinationSnap))
            (\<lambda>g. setGeometry edgeRef g))"

text \<open>\<open>path\<close> is the list of references to the edge objects of the route; the result is
  the list \<open>edges\<close> of the returned \<open>TrimmedRoute\<close>. \<open>edges[0]\<close> of an empty list would be
  \<open>undefined\<close>, whose \<open>geometry\<close> cannot be read.\<close>

definition trimRouteToSnapPoints :: "addr list \<Rightarrow> SnapResult \<Rightarrow> SnapResult \<Rightarrow> (addr list) js" where
  "trimRouteToSnapPoints path originSnap destinationSnap =
     (if length path = 0 then ret []
      else
        bind (copyEdges path) (\<lambda>edges.
          case edges of
            [] \<Rightarrow> throw TypeError
          | first # others \<Rightarrow>
              if length edges = 1
              then bind (trimSingle first originSnap destinationSnap) (\<lambda>u. ret edges)
              else
                bind (trimFirst first originSnap) (\<lambda>u.
                bind (trimLast (last edges) destinationSnap) (\<lambda>u.
                ret edges))))"

subsection \<open>Trimming leaves the objects of the store as they were\<close>

text \<open>
  \<open>keeps h0 m Q\<close>: run from any store that extends \<open>h0\<close>, the computation \<open>m\<close> leaves a
  store that extends \<open>h0\<close>, that is, every object of \<open>h0\<close> is unchanged; and its result
  satisfies \<open>Q\<close>.
\<close>

definition keeps :: "store \<Rightarrow> 'a js \<Rightarrow> ('a \<Rightarrow> bool) \<Rightarrow> bool" where
  "keeps h0 m Q =
     (\<forall>h r h'. prefix h0 h \<longrightarrow> m h = (r, h') \<longrightarrow>
        prefix h0 h' \<and> (\<forall>x. r = Inr x \<longrightarrow> Q x))"

definition fresh :: "store \<Rightarrow> addr \<Rightarrow> bool" where
  "fresh h0 a = (length h0 \<le> a)"

lemma keeps_ret: "Q x \<Longrightarrow> keeps h0 (ret x) Q"
  by (simp add: keeps_def ret_def)

lemma keeps_throw: "keeps h0 (throw e) Q"
  by (simp add: keeps_def throw_def)

lemma keeps_bind:
  assumes "keeps h0 m Q" and "\<And>x. Q x \<Longrightarrow> keeps h0 (f x) R"
  shows "keeps h0 (bind m f) R"
  unfolding keeps_def
proof (intro allI impI)
  fix h r h'
  assume p: "prefix h0 h" and run: "bind m f h = (r, h')"
  obtain r1 h1 where m: "m h = (r1, h1)" by (cases "m h")
  from assms(1) p m have p1: "prefix h0 h1" and q: "\<forall>x. r1 = Inr x \<longrightarrow> Q x"
    by (auto simp: keeps_def)
  show "prefix h0 h' \<and> (\<forall>x. r = Inr x \<longrightarrow> R x)"
  proof (cases r1)
    case (Inl e)
    with run m p1 show ?thesis by (auto simp: bind_def)
  next
    case (Inr x)
    with run m have "f x h1 = (r, h')" by (simp add: bind_def)
    with assms(2) [of x] q Inr p1 show ?thesis by (auto simp: keeps_def)
  qed
qed

lemma keeps_weaken: "keeps h0 m Q \<Longrightarrow> (\<And>x. Q x \<Longrightarrow> R x) \<Longrightarrow> keeps h0 m R"
  by (auto simp: keeps_def)

lemma prefix_snoc: "prefix h0 h \<Longrightarrow> prefix h0 (h @ [obj])"
  by (auto simp: prefix_def)

lemma prefix_update: "prefix h0 h \<Longrightarrow> length h0 \<le> a \<Longrightarrow> prefix h0 (h[a := obj])"
  by (auto simp: prefix_def list_update_append)

lemma keeps_alloc: "keeps h0 (alloc obj) (fresh h0)"
  by (auto simp: keeps_def alloc_def fresh_def prefix_snoc dest: prefix_length_le)

lemma keeps_readEdge: "keeps h0 (readEdge a) (\<lambda>e. True)"
  by (auto simp: keeps_def readEdge_def split: if_splits jsObject.splits)

lemma keeps_readArray: "keeps h0 (readArray a) (\<lambda>refs. True)"
  by (auto simp: keeps_def readArray_def split: if_splits jsObject.splits)

lemma keeps_readPair: "keeps h0 (readPair a) (\<lambda>p. True)"
  by (auto simp: keeps_def readPair_def split: if_splits jsObject.splits)

lemma keeps_arrayPush: "fresh h0 a \<Longrightarrow> keeps h0 (arrayPush a r) (\<lambda>u. True)"
  by (auto simp: keeps_def arrayPush_def fresh_def prefix_update split: if_splits jsObject.splits)

lemma keeps_setGeometry: "fresh h0 a \<Longrightarrow> keeps h0 (setGeometry a g) (\<lambda>u. True)"
  by (auto simp: keeps_def setGeometry_def fresh_def prefix_update split: if_splits jsObject.splits)

lemma keeps_readPairs: "keeps h0 (readPairs refs) (\<lambda>ps. True)"
proof (induction refs)
  case Nil
  show ?case by (simp add: keeps_ret)
next
  case (Cons r refs)
  show ?case
    unfolding readPairs.simps
    by (intro keeps_bind [OF keeps_readPair] keeps_bind [OF Cons] keeps_ret TrueI)
qed

lemma keeps_pushEach: "fresh h0 a \<Longrightarrow> keeps h0 (pushEach a refs) (\<lambda>u. True)"
proof (induction refs)
  case Nil
  show ?case by (simp add: keeps_ret)
next
  case (Cons r refs)
  show ?case
    unfolding pushEach.simps
    by (intro keeps_bind [OF keeps_arrayPush [OF Cons.prems]] Cons.IH [OF Cons.prems])
qed

lemma keeps_findSnapSegment: "keeps h0 (findSnapSegment snapLat snapLon g) (\<lambda>seg. True)"
  unfolding findSnapSegment_def
  by (intro keeps_bind [OF keeps_readArray] keeps_bind [OF keeps_readPairs])
     (auto intro: keeps_ret keeps_throw split: list.splits)

lemma keeps_trimGeometryFromStart:
  "keeps h0 (trimGeometryFromStart g snapLat snapLon) (fresh h0)"
  unfolding trimGeometryFromStart_def
  by (intro keeps_bind [OF keeps_findSnapSegment] keeps_bind [OF keeps_readArray]
      keeps_bind [OF keeps_alloc] keeps_bind [OF keeps_pushEach] keeps_ret)

lemma keeps_trimGeometryToEnd:
  "keeps h0 (trimGeometryToEnd g snapLat snapLon) (fresh h0)"
  unfolding trimGeometryToEnd_def
  by (intro keeps_bind [OF keeps_findSnapSegment] keeps_bind [OF keeps_readArray]
      keeps_bind [OF keeps_alloc] keeps_bind [OF keeps_pushEach] keeps_bind [OF keeps_arrayPush]
      keeps_ret)


lemma keeps_copyEdges:
  "keeps h0 (copyEdges path) (\<lambda>edges. length edges = length path \<and> list_all (fresh h0) edges)"
proof (induction path)
  case Nil
  show ?case by (simp add: keeps_ret)
next
  case (Cons a path)
  show ?case
    unfolding copyEdges.simps
  proof (intro keeps_bind [OF keeps_readEdge] keeps_bind [OF keeps_readArray]
      keeps_bind [OF keeps_alloc] keeps_bind [OF Cons])
    fix e refs g copy copies
    assume "fresh h0 copy" "length copies = length path \<and> list_all (fresh h0) copies"
    then show "keeps h0 (ret (copy # copies))
        (\<lambda>edges. length edges = length (a # path) \<and> list_all (fresh h0) edges)"
      by (intro keeps_ret) simp
  qed
qed

lemma keeps_alongSegment: "keeps h0 (alongSegment g seg) (\<lambda>d. True)"
  unfolding alongSegment_def
  by (intro keeps_bind [OF keeps_readArray])
     (auto intro!: keeps_bind [OF keeps_readPair] keeps_ret keeps_throw)

lemma keeps_trimThenSet:
  assumes "fresh h0 edgeRef" and "keeps h0 m (fresh h0)"
  shows "keeps h0 (bind m (\<lambda>g. setGeometry edgeRef g)) (\<lambda>u. True)"
  by (intro keeps_bind [OF assms(2)] keeps_setGeometry [OF assms(1)])

lemma keeps_trimSingle:
  assumes "fresh h0 edgeRef"
  shows "keeps h0 (trimSingle edgeRef originSnap destinationSnap) (\<lambda>u. True)"
proof -
  have order: "keeps h0
      (if segmentIndex originSeg < segmentIndex destSeg then ret True
       else if segmentIndex originSeg = segmentIndex destSeg
       then bind (alongSegment geo originSeg) (\<lambda>dOrigin.
            bind (alongSegment geo destSeg) (\<lambda>dDest. ret (dOrigin \<le> dDest)))
       else ret False) (\<lambda>b. True)" for originSeg destSeg geo
    by (auto intro!: keeps_ret keeps_bind [OF keeps_alongSegment])
  have both: "keeps h0
      (bind (trimGeometryFromStart geo la lo) (\<lambda>trimmed.
       bind (trimGeometryToEnd trimmed la' lo') (\<lambda>g. setGeometry edgeRef g))) (\<lambda>u. True)"
    for geo la lo la' lo'
    by (intro keeps_bind [OF keeps_trimGeometryFromStart]
        keeps_trimThenSet [OF assms keeps_trimGeometryToEnd])
  show ?thesis
    unfolding trimSingle_def Let_def
    by (intro keeps_bind [OF keeps_readEdge] keeps_bind [OF keeps_findSnapSegment]
        keeps_bind [OF order])
       (simp add: both)
qed

lemma keeps_trimFirst:
  assumes "fresh h0 edgeRef"
  shows "keeps h0 (trimFirst edgeRef originSnap) (\<lambda>u. True)"
  unfolding trimFirst_def Let_def
  by (intro keeps_bind [OF keeps_readEdge])
     (simp add: keeps_trimThenSet [OF assms keeps_trimGeometryFromStart]
        keeps_trimThenSet [OF assms keeps_trimGeometryToEnd])

lemma keeps_trimLast:
  assumes "fresh h0 edgeRef"
  shows "keeps h0 (trimLast edgeRef destinationSnap) (\<lambda>u. True)"
  unfolding trimLast_def Let_def
  by (intro keeps_bind [OF keeps_readEdge])
     (simp add: keeps_trimThenSet [OF assms keeps_trimGeometryFromStart]
        keeps_trimThenSet [OF assms keeps_trimGeometryToEnd])

lemma keeps_trimRouteToSnapPoints:
  "keeps h0 (trimRouteToSnapPoints path originSnap destinationSnap)
     (\<lambda>edges. length edges = length path \<and> list_all (fresh h0) edges)"
proof (cases "length path = 0")
  case True
  then show ?thesis by (simp add: trimRouteToSnapPoints_def keeps_ret)
next
  case False
  have "keeps h0
      (case edges of
         [] \<Rightarrow> throw TypeError
       | first # others \<Rightarrow>
           if length edges = 1
           then bind (trimSingle first originSnap destinationSnap) (\<lambda>u. ret edges)
           else bind (trimFirst first originSnap) (\<lambda>u.
                bind (trimLast (last edges) destinationSnap) (\<lambda>u. ret edges)))
      (\<lambda>edges. length edges = length path \<and> list_all (fresh h0) edges)"
    if e: "length edges = length path \<and> list_all (fresh h0) edges" for edges
  proof (cases edges)
    case Nil
    then show ?thesis by (simp add: keeps_throw)
  next
    case (Cons first others)
    have f: "fresh h0 first" and l: "fresh h0 (last edges)"
      using e Cons by (auto simp: list_all_iff)
    have r: "keeps h0 (ret edges) (\<lambda>edges. length edges = length path \<and> list_all (fresh h0) edges)"
      using e by (intro keeps_ret)
    have body: "keeps h0
        (if length edges = 1
         then bind (trimSingle first originSnap destinationSnap) (\<lambda>u. ret edges)
         else bind (trimFirst first originSnap) (\<lambda>u.
              bind (trimLast (last edges) destinationSnap) (\<lambda>u. ret edges)))
        (\<lambda>edges. length edges = length path \<and> list_all (fresh h0) edges)"
    proof (cases "length edges = 1")
      case True
      have "keeps h0 (bind (trimSingle first originSnap destinationSnap) (\<lambda>u. ret edges))
          (\<lambda>edges. length edges = length path \<and> list_all (fresh h0) edges)"
        by (intro keeps_bind [OF keeps_trimSingle [OF f]] r)
      with True show ?thesis by simp
    next
      case False
      have "keeps h0 (bind (trimFirst first originSnap) (\<lambda>u.
              bind (trimLast (last edges) destinationSnap) (\<lambda>u. ret edges)))
          (\<lambda>edges. length edges = length path \<and> list_all (fresh h0) edges)"
        by (intro keeps_bind [OF keeps_trimFirst [OF f]] keeps_bind [OF keeps_trimLast [OF l]] r)
      with False show ?thesis by simp
    qed
    then show ?thesis
      by (simp add: Cons)
  qed
  with False show ?thesis
    unfolding trimRouteToSnapPoints_def
    by (simp add: keeps_bind [OF keeps_copyEdges])
qed


text \<open>Reading an edge object with its geometry as a sequence of coordinate pairs.\<close>

definition withGeometry :: "'a GraphEdgeOf \<Rightarrow> 'b \<Rightarrow> 'b GraphEdgeOf" where
  "withGeometry e g =
     \<lparr> from_id = from_id e, to_id = to_id e, wayId = wayId e, highway = highway e,
       maxspeed = maxspeed e, oneway = oneway e, onewayBicycle = onewayBicycle e,
       isReverse = isReverse e, distance = distance e, geometry = g, access = access e,
       motorVehicle = motorVehicle e, vehicle = vehicle e, bicycle = bicycle e, foot = foot e \<rparr>"

definition edgeValue :: "addr \<Rightarrow> GraphEdge js" where
  "edgeValue a =
     bind (readEdge a) (\<lambda>e.
     bind (readArray (geometry e)) (\<lambda>refs.
     bind (readPairs refs) (\<lambda>pts.
     ret (withGeometry e pts))))"

lemma prefix_nth: "prefix h h' \<Longrightarrow> a < length h \<Longrightarrow> h' ! a = h ! a \<and> a < length h'"
  by (auto simp: prefix_def nth_append)

lemma readEdge_prefix:
  "prefix h h' \<Longrightarrow> readEdge a h = (Inr e, h1) \<Longrightarrow> readEdge a h' = (Inr e, h') \<and> h1 = h"
  by (auto simp: readEdge_def prefix_nth split: if_splits jsObject.splits)

lemma readArray_prefix:
  "prefix h h' \<Longrightarrow> readArray a h = (Inr refs, h1) \<Longrightarrow> readArray a h' = (Inr refs, h') \<and> h1 = h"
  by (auto simp: readArray_def prefix_nth split: if_splits jsObject.splits)

lemma readPair_prefix:
  "prefix h h' \<Longrightarrow> readPair a h = (Inr p, h1) \<Longrightarrow> readPair a h' = (Inr p, h') \<and> h1 = h"
  by (auto simp: readPair_def prefix_nth split: if_splits jsObject.splits)

lemma bind_Inr:
  "bind m f h = (Inr y, h2) \<longleftrightarrow> (\<exists>x h1. m h = (Inr x, h1) \<and> f x h1 = (Inr y, h2))"
  by (cases "m h") (auto simp: bind_def split: sum.splits)

lemma readPairs_prefix:
  "prefix h h' \<Longrightarrow> readPairs refs h = (Inr ps, h1) \<Longrightarrow>
   readPairs refs h' = (Inr ps, h') \<and> h1 = h"
proof (induction refs arbitrary: ps h1)
  case Nil
  then show ?case by (simp add: ret_def)
next
  case (Cons r refs)
  from Cons.prems(2) obtain p ha ps' hb where
    p: "readPair r h = (Inr p, ha)" and ps': "readPairs refs ha = (Inr ps', hb)"
    and res: "ps = p # ps'" "h1 = hb"
    by (auto simp: bind_Inr ret_def)
  from readPair_prefix [OF Cons.prems(1) p] have p': "readPair r h' = (Inr p, h')" "ha = h"
    by simp_all
  from Cons.IH [OF Cons.prems(1) ps' [unfolded p'(2)]]
  have "readPairs refs h' = (Inr ps', h')" "hb = h" by simp_all
  with p' res show ?case
    by (simp add: bind_def ret_def)
qed

lemma edgeValue_prefix:
  assumes "prefix h h'" and "fst (edgeValue a h) = Inr v"
  shows "fst (edgeValue a h') = Inr v"
proof -
  obtain h3 where "edgeValue a h = (Inr v, h3)"
    using assms(2) by (cases "edgeValue a h") simp
  then obtain e h1 refs h2 pts where
    e: "readEdge a h = (Inr e, h1)" and refs: "readArray (geometry e) h1 = (Inr refs, h2)"
    and pts: "readPairs refs h2 = (Inr pts, h3)" and v: "v = withGeometry e pts"
    by (auto simp: edgeValue_def bind_Inr ret_def)
  from readEdge_prefix [OF assms(1) e] have e': "readEdge a h' = (Inr e, h')" "h1 = h"
    by simp_all
  from readArray_prefix [OF assms(1) refs [unfolded e'(2)]]
  have r': "readArray (geometry e) h' = (Inr refs, h')" "h2 = h" by simp_all
  from readPairs_prefix [OF assms(1) pts [unfolded r'(2)]]
  have "readPairs refs h' = (Inr pts, h')" by simp
  with e' r' v show ?thesis
    by (simp add: edgeValue_def bind_def ret_def)
qed

text \<open>
  \<open>copyOf h a e0\<close>: the object at \<open>a\<close> is an edge object that agrees with the edge
  object \<open>e0\<close> in every field but \<open>geometry\<close>. Nothing in the module ends this.
\<close>

definition copyOf :: "store \<Rightarrow> addr \<Rightarrow> addr GraphEdgeOf \<Rightarrow> bool" where
  "copyOf h a e0 =
     (a < length h \<and> (\<exists>e. h ! a = EdgeObject e \<and> withGeometry e () = withGeometry e0 ()))"

definition retains :: "(store \<Rightarrow> bool) \<Rightarrow> 'a js \<Rightarrow> bool" where
  "retains I m = (\<forall>h r h'. I h \<longrightarrow> m h = (r, h') \<longrightarrow> I h')"

lemma retains_ret: "retains I (ret x)"
  by (simp add: retains_def ret_def)

lemma retains_throw: "retains I (throw e)"
  by (simp add: retains_def throw_def)

lemma retains_bind:
  assumes "retains I m" and "\<And>x. retains I (f x)"
  shows "retains I (bind m f)"
  unfolding retains_def
proof (intro allI impI)
  fix h r h'
  assume i: "I h" and run: "bind m f h = (r, h')"
  obtain r1 h1 where m: "m h = (r1, h1)" by (cases "m h")
  with assms(1) i have i1: "I h1" unfolding retains_def by blast
  show "I h'"
  proof (cases r1)
    case (Inl e)
    with run m i1 show ?thesis by (simp add: bind_def)
  next
    case (Inr x)
    with run m have "f x h1 = (r, h')" by (simp add: bind_def)
    with assms(2) [of x] i1 show ?thesis unfolding retains_def by blast
  qed
qed

lemma retains_if: "retains I m \<Longrightarrow> retains I n \<Longrightarrow> retains I (if b then m else n)"
  by simp

lemma retains_alloc: "retains (\<lambda>h. copyOf h a e0) (alloc obj)"
  by (auto simp: retains_def alloc_def copyOf_def nth_append)

lemma retains_readEdge: "retains I (readEdge a)"
  by (auto simp: retains_def readEdge_def split: if_splits jsObject.splits)

lemma retains_readArray: "retains I (readArray a)"
  by (auto simp: retains_def readArray_def split: if_splits jsObject.splits)

lemma retains_readPair: "retains I (readPair a)"
  by (auto simp: retains_def readPair_def split: if_splits jsObject.splits)

lemma retains_arrayPush: "retains (\<lambda>h. copyOf h a e0) (arrayPush b r)"
  by (auto simp: retains_def arrayPush_def copyOf_def nth_list_update
      split: if_splits jsObject.splits)

lemma withGeometry_update: "withGeometry (e\<lparr> geometry := g \<rparr>) x = withGeometry e x"
  by (simp add: withGeometry_def)

lemma retains_setGeometry: "retains (\<lambda>h. copyOf h a e0) (setGeometry b g)"
  by (auto simp: retains_def setGeometry_def copyOf_def nth_list_update withGeometry_update
      split: if_splits jsObject.splits)

lemma retains_readPairs: "retains I (readPairs refs)"
  by (induction refs) (auto intro!: retains_ret retains_bind retains_readPair)

lemma retains_pushEach: "retains (\<lambda>h. copyOf h a e0) (pushEach b refs)"
  by (induction refs) (auto intro!: retains_ret retains_bind retains_arrayPush)

lemma retains_findSnapSegment: "retains I (findSnapSegment snapLat snapLon g)"
  unfolding findSnapSegment_def
  by (auto intro!: retains_bind retains_readArray retains_readPairs retains_ret retains_throw
      split: list.splits)

lemma retains_trimGeometryFromStart:
  "retains (\<lambda>h. copyOf h a e0) (trimGeometryFromStart g snapLat snapLon)"
  unfolding trimGeometryFromStart_def
  by (intro retains_bind retains_findSnapSegment retains_readArray retains_alloc
      retains_pushEach retains_ret)

lemma retains_trimGeometryToEnd:
  "retains (\<lambda>h. copyOf h a e0) (trimGeometryToEnd g snapLat snapLon)"
  unfolding trimGeometryToEnd_def
  by (intro retains_bind retains_findSnapSegment retains_readArray retains_alloc
      retains_pushEach retains_arrayPush retains_ret)

lemma retains_alongSegment: "retains I (alongSegment g seg)"
  unfolding alongSegment_def
  by (auto intro!: retains_bind retains_readArray retains_readPair retains_ret retains_throw)

lemma retains_trimSingle:
  "retains (\<lambda>h. copyOf h a e0) (trimSingle edgeRef originSnap destinationSnap)"
  unfolding trimSingle_def Let_def
  by (intro retains_bind retains_if retains_readEdge retains_findSnapSegment
      retains_alongSegment retains_trimGeometryFromStart retains_trimGeometryToEnd
      retains_setGeometry retains_ret)

lemma retains_trimFirst: "retains (\<lambda>h. copyOf h a e0) (trimFirst edgeRef originSnap)"
  unfolding trimFirst_def Let_def
  by (intro retains_bind retains_if retains_readEdge retains_trimGeometryFromStart
      retains_trimGeometryToEnd retains_setGeometry)

lemma retains_trimLast: "retains (\<lambda>h. copyOf h a e0) (trimLast edgeRef destinationSnap)"
  unfolding trimLast_def Let_def
  by (intro retains_bind retains_if retains_readEdge retains_trimGeometryFromStart
      retains_trimGeometryToEnd retains_setGeometry)

lemma retains_copyEdges: "retains (\<lambda>h. copyOf h a e0) (copyEdges path)"
proof (induction path)
  case Nil
  show ?case by (simp add: retains_ret)
next
  case (Cons p path)
  show ?case
    unfolding copyEdges.simps
    by (intro retains_bind retains_readEdge retains_readArray retains_alloc Cons retains_ret)
qed

text \<open>The copies made of the edges of the path.\<close>

definition copiesOf :: "store \<Rightarrow> store \<Rightarrow> addr list \<Rightarrow> addr list \<Rightarrow> bool" where
  "copiesOf h h' edges path =
     list_all2 (\<lambda>c a. \<exists>e0. h ! a = EdgeObject e0 \<and> copyOf h' c e0) edges path"

lemma copyEdges_copies:
  "copyEdges path h = (Inr edges, h') \<Longrightarrow> \<forall>a \<in> set path. a < length h0 \<Longrightarrow> prefix h0 h \<Longrightarrow>
   copiesOf h0 h' edges path"
proof (induction path arbitrary: h edges)
  case Nil
  then show ?case by (simp add: ret_def copiesOf_def)
next
  case (Cons a path)
  from Cons.prems(1) obtain e h1 refs h2 g h3 c h4 cs where
    e: "readEdge a h = (Inr e, h1)" and refs: "readArray (geometry e) h1 = (Inr refs, h2)"
    and g: "alloc (ArrayObject refs) h2 = (Inr g, h3)"
    and c: "alloc (EdgeObject (e\<lparr> geometry := g \<rparr>)) h3 = (Inr c, h4)"
    and cs: "copyEdges path h4 = (Inr cs, h')" and edges: "edges = c # cs"
    by (auto simp: bind_Inr ret_def)
  have h1: "h1 = h" and ea: "h ! a = EdgeObject e"
    using e by (auto simp: readEdge_def split: if_splits jsObject.splits)
  have h2: "h2 = h"
    using refs h1 by (auto simp: readArray_def split: if_splits jsObject.splits)
  have h4: "h4 = h @ [ArrayObject refs, EdgeObject (e\<lparr> geometry := g \<rparr>)]"
    and cc: "c = Suc (length h)"
    using g c h2 by (auto simp: alloc_def)
  have p4: "prefix h0 h4"
    using Cons.prems(3) h4 by (auto simp: prefix_def)
  have "copyOf h4 c e"
    by (simp add: copyOf_def h4 cc nth_append withGeometry_update)
  with retains_copyEdges [of c e path] cs have "copyOf h' c e"
    unfolding retains_def by blast
  moreover have "h0 ! a = EdgeObject e"
    using ea Cons.prems(2,3) prefix_nth [of h0 h a] by simp
  moreover have "copiesOf h0 h' cs path"
    using Cons.IH [OF cs _ p4] Cons.prems(2) by simp
  ultimately show ?case
    by (auto simp: copiesOf_def edges)
qed

lemma copiesOf_retained:
  assumes "copiesOf h0 h edges path" and "\<And>a e0. retains (\<lambda>h. copyOf h a e0) m"
    and "m h = (r, h')"
  shows "copiesOf h0 h' edges path"
proof -
  have "copyOf h' c e0" if "copyOf h c e0" for c e0
    using assms(2) [of c e0] that assms(3) unfolding retains_def by blast
  with assms(1) show ?thesis
    unfolding copiesOf_def by (auto elim!: list_all2_mono)
qed

lemma trimRouteToSnapPoints_copies:
  assumes run: "trimRouteToSnapPoints path originSnap destinationSnap h = (Inr edges, h')"
    and known: "\<forall>a \<in> set path. a < length h"
  shows "copiesOf h h' edges path"
proof (cases "length path = 0")
  case True
  with run show ?thesis by (simp add: trimRouteToSnapPoints_def ret_def copiesOf_def)
next
  case False
  with run obtain es h1 where
    cp: "copyEdges path h = (Inr es, h1)"
    and rest: "(case es of
         [] \<Rightarrow> throw TypeError
       | first # others \<Rightarrow>
           if length es = 1
           then bind (trimSingle first originSnap destinationSnap) (\<lambda>u. ret es)
           else bind (trimFirst first originSnap) (\<lambda>u.
                bind (trimLast (last es) destinationSnap) (\<lambda>u. ret es))) h1 = (Inr edges, h')"
    by (auto simp: trimRouteToSnapPoints_def bind_Inr)
  have c1: "copiesOf h h1 es path"
    using copyEdges_copies [OF cp known] by simp
  have "retains (\<lambda>h. copyOf h a e0)
      (case es of
         [] \<Rightarrow> throw TypeError
       | first # others \<Rightarrow>
           if length es = 1
           then bind (trimSingle first originSnap destinationSnap) (\<lambda>u. ret es)
           else bind (trimFirst first originSnap) (\<lambda>u.
                bind (trimLast (last es) destinationSnap) (\<lambda>u. ret es)))" for a e0
    by (cases es)
       (auto intro!: retains_throw retains_bind retains_trimSingle retains_trimFirst
          retains_trimLast retains_ret)
  from copiesOf_retained [OF c1 this rest] have "copiesOf h h' es path" .
  moreover have "edges = es"
    using rest by (cases es) (auto simp: throw_def bind_Inr ret_def split: if_splits)
  ultimately show ?thesis by simp
qed

text \<open>
  C9. \<open>trimRouteToSnapPoints\<close> changes no object that exists before the call: after the
  call (whether it returns or throws) every object of the store is the object it was,
  so every edge read with its geometry as a sequence of coordinate pairs has the value
  it had. The returned edges are copies: as many as the edges of the path, each an
  object created by the call that agrees with its original in every field but
  \<open>geometry\<close>.
\<close>

theorem C9_trim_does_not_mutate:
  "trimRouteToSnapPoints path originSnap destinationSnap h = (r, h') \<longrightarrow>
     length h \<le> length h' \<and> (\<forall>a < length h. h' ! a = h ! a)
     \<and> (\<forall>a v. fst (edgeValue a h) = Inr v \<longrightarrow> fst (edgeValue a h') = Inr v)
     \<and> (\<forall>edges. r = Inr edges \<longrightarrow>
           length edges = length path \<and> (\<forall>a \<in> set edges. length h \<le> a)
           \<and> ((\<forall>a \<in> set path. a < length h) \<longrightarrow> copiesOf h h' edges path))"
proof
  assume run: "trimRouteToSnapPoints path originSnap destinationSnap h = (r, h')"
  from keeps_trimRouteToSnapPoints [of h path originSnap destinationSnap] run
  have p: "prefix h h'"
    and res: "\<forall>edges. r = Inr edges \<longrightarrow> length edges = length path \<and> list_all (fresh h) edges"
    unfolding keeps_def by blast+
  have 1: "length h \<le> length h'"
    using p by (rule prefix_length_le)
  have 2: "\<forall>a < length h. h' ! a = h ! a"
    using p by (simp add: prefix_nth)
  have 3: "\<forall>a v. fst (edgeValue a h) = Inr v \<longrightarrow> fst (edgeValue a h') = Inr v"
    using edgeValue_prefix [OF p] by blast
  have 4: "\<forall>edges. r = Inr edges \<longrightarrow>
           length edges = length path \<and> (\<forall>a \<in> set edges. length h \<le> a)
           \<and> ((\<forall>a \<in> set path. a < length h) \<longrightarrow> copiesOf h h' edges path)"
  proof (intro allI impI conjI)
    fix edges
    assume r: "r = Inr edges"
    with res show "length edges = length path" by simp
    from r res show "\<forall>a \<in> set edges. length h \<le> a"
      by (simp add: fresh_def list_all_iff)
    assume "\<forall>a \<in> set path. a < length h"
    with run r show "copiesOf h h' edges path"
      by (simp add: trimRouteToSnapPoints_copies)
  qed
  from 1 2 3 4 show "length h \<le> length h' \<and> (\<forall>a < length h. h' ! a = h ! a)
     \<and> (\<forall>a v. fst (edgeValue a h) = Inr v \<longrightarrow> fst (edgeValue a h') = Inr v)
     \<and> (\<forall>edges. r = Inr edges \<longrightarrow>
           length edges = length path \<and> (\<forall>a \<in> set edges. length h \<le> a)
           \<and> ((\<forall>a \<in> set path. a < length h) \<longrightarrow> copiesOf h h' edges path))"
    by (intro conjI)
qed

text \<open>The store of the test: two edges with the geometries (0,0), (10,0) and
  (10,0), (20,0); the references of the edge objects are 3 and 7.\<close>

definition routeStore :: store where
  "routeStore =
     [PairObject 0 0, PairObject 10 0, ArrayObject [0, 1],
      EdgeObject (withGeometry (makeEdge 1 2 100 False 100) 2),
      PairObject 10 0, PairObject 20 0, ArrayObject [4, 5],
      EdgeObject (withGeometry (makeEdge 2 3 200 False 100) 6)]"

definition snapAt :: "int \<Rightarrow> real \<Rightarrow> real \<Rightarrow> SnapResult" where
  "snapAt n la lo =
     \<lparr> snap_nodeId = n, snap_lat = la, snap_lon = lo,
       snap_edge = makeEdge 1 2 100 False 100, distanceToSnap = Finite 0 \<rparr>"

definition trimmedStore :: store where
  "trimmedStore =
     routeStore @
     [ArrayObject [0, 1],
      EdgeObject (withGeometry (makeEdge 1 2 100 False 100) 13),
      ArrayObject [4, 5],
      EdgeObject (withGeometry (makeEdge 2 3 200 False 100) 14),
      PairObject 5 0,
      ArrayObject [12, 1],
      ArrayObject [4, 15],
      PairObject 15 0]"

lemma routeStore_trim:
  "trimRouteToSnapPoints [3, 7] (snapAt 1 5 0) (snapAt 3 15 0) routeStore
     = (Inr [9, 11], trimmedStore)"
  by (simp add: trimRouteToSnapPoints_def routeStore_def trimmedStore_def snapAt_def bind_def
      ret_def throw_def alloc_def readEdge_def readArray_def readPair_def arrayPush_def
      setGeometry_def trimFirst_def trimLast_def trimGeometryFromStart_def
      trimGeometryToEnd_def findSnapSegment_def withGeometry_def makeEdge_def Let_def
      closer_def projectPointOnSegment_def nth_append eval_nat_numeral)

lemmas read_eval = edgeValue_def bind_def ret_def readEdge_def readArray_def readPair_def
  withGeometry_def makeEdge_def nth_append

lemma routeStore_first:
  "fst (edgeValue 3 routeStore)
     = Inr (withGeometry (makeEdge 1 2 100 False 100) [(0, 0), (10, 0)])"
  by (simp add: routeStore_def read_eval)

lemma routeStore_length: "length routeStore = 8"
  by (simp add: routeStore_def)

theorem C9_trim_does_not_mutate_witness:
  "trimRouteToSnapPoints [3, 7] (snapAt 1 5 0) (snapAt 3 15 0) routeStore
     = (Inr [9, 11], trimmedStore)
   \<and> length routeStore = 8
   \<and> take 8 trimmedStore = routeStore
   \<and> fst (edgeValue 3 trimmedStore)
       = Inr (withGeometry (makeEdge 1 2 100 False 100) [(0, 0), (10, 0)])
   \<and> copiesOf routeStore trimmedStore [9, 11] [3, 7]
   \<and> fst (edgeValue 9 trimmedStore)
       = Inr (withGeometry (makeEdge 1 2 100 False 100) [(5, 0), (10, 0)])
   \<and> fst (edgeValue 11 trimmedStore)
       = Inr (withGeometry (makeEdge 2 3 200 False 100) [(10, 0), (15, 0)])"
proof -
  have known: "\<forall>a \<in> set [3, 7]. a < length routeStore"
    by (simp add: routeStore_length)
  from C9_trim_does_not_mutate [of "[3, 7]" "snapAt 1 5 0" "snapAt 3 15 0" routeStore
      "Inr [9, 11]" trimmedStore] routeStore_trim routeStore_first known
  have "fst (edgeValue 3 trimmedStore)
       = Inr (withGeometry (makeEdge 1 2 100 False 100) [(0, 0), (10, 0)])
     \<and> copiesOf routeStore trimmedStore [9, 11] [3, 7]"
    by blast
  moreover have "fst (edgeValue 9 trimmedStore)
       = Inr (withGeometry (makeEdge 1 2 100 False 100) [(5, 0), (10, 0)])"
    by (simp add: trimmedStore_def routeStore_def read_eval eval_nat_numeral)
  moreover have "fst (edgeValue 11 trimmedStore)
       = Inr (withGeometry (makeEdge 2 3 200 False 100) [(10, 0), (15, 0)])"
    by (simp add: trimmedStore_def routeStore_def read_eval eval_nat_numeral)
  moreover have "take 8 trimmedStore = routeStore"
    by (simp add: trimmedStore_def routeStore_def)
  ultimately show ?thesis
    using routeStore_trim routeStore_length by simp
qed

end
